theory Spec2Isabelle
  imports Complex_Main "HOL-Library.Sublist" "HOL-Library.Log_Nat"
begin

section \<open>Strings\<close>

text \<open>
  Strings of the script are modelled as \<^typ>\<open>string\<close>; a \<^typ>\<open>char\<close> stands for one
  code unit in the range U+0000 to U+00FF. On that range \<open>toLowerCase\<close> maps the
  letters A to Z and the Latin-1 capitals U+00C0 to U+00DE (the multiplication sign
  U+00D7 apart) to the code unit 32 places higher and leaves every other unit alone.
\<close>

definition lower_unit :: "char \<Rightarrow> char" where
  "lower_unit c =
     (let n = (of_char c :: nat)
      in if (65 \<le> n \<and> n \<le> 90) \<or> (192 \<le> n \<and> n \<le> 222 \<and> n \<noteq> 215)
         then char_of (n + 32) else c)"

definition toLowerCase :: "string \<Rightarrow> string" where
  "toLowerCase s = map lower_unit s"

text \<open>
  \<open>s.includes(q)\<close>: is there an index of \<open>s\<close> at which \<open>q\<close> starts? The search runs
  from index 0 upwards; the empty string is found at once.
\<close>

fun includes_str :: "string \<Rightarrow> string \<Rightarrow> bool" where
  "includes_str [] q = (q = [])"
| "includes_str (c # s) q = (prefix q (c # s) \<or> includes_str s q)"

section \<open>Errors and loops that may throw\<close>

text \<open>
  What the script can throw: a \<open>TypeError\<close> of the language (a property read of
  \<open>null\<close>, a \<open>new\<close> on something that is no constructor), and whatever a constructor
  of the toolkit throws itself.
\<close>

datatype error = TypeError | ToolkitError

text \<open>
  \<open>xs.forEach(f)\<close> where \<open>f\<close> mutates the element it is given and may throw: the
  elements before the throwing one keep their update, the throwing one and those after
  it are left as they were, and the exception leaves the loop. \<open>Inl\<close> carries the
  error together with the state reached.
\<close>

fun forEach :: "('a \<Rightarrow> error + 'a) \<Rightarrow> 'a list \<Rightarrow> error \<times> 'a list + 'a list" where
  "forEach f [] = Inr []"
| "forEach f (x # xs) =
     (case f x of
        Inl e \<Rightarrow> Inl (e, x # xs)
      | Inr x' \<Rightarrow>
          (case forEach f xs of
             Inl (e, xs') \<Rightarrow> Inl (e, x' # xs')
           | Inr xs' \<Rightarrow> Inr (x' # xs')))"

text \<open>The state a handler leaves behind, whether it returned or threw.\<close>

fun state_after :: "error \<times> 's + 's \<Rightarrow> 's" where
  "state_after (Inl (e, s)) = s"
| "state_after (Inr s) = s"

section \<open>Resource search\<close>

text \<open>
  A resource card: the text of its \<open>.card-title\<close> child (\<open>None\<close> when the card has no
  such child, so that \<open>querySelector\<close> gives \<open>null\<close>), its \<open>data-type\<close> attribute
  (\<open>None\<close> when absent, \<open>dataset.type\<close> is then \<open>undefined\<close>) and \<open>style.display\<close>.
\<close>

record card =
  card_title :: "string option"
  data_type :: "string option"
  display :: string

text \<open>
  What the search reads of the page: the value of \<open>#searchInput\<close> and of
  \<open>#resourceTypeFilter\<close> (\<open>None\<close> when \<open>getElementById\<close> gives \<open>null\<close>), whether
  \<open>#searchButton\<close> exists, and the cards in document order.
\<close>

record page =
  searchInput :: "string option"
  searchButton :: bool
  typeFilter :: "string option"
  resourceCards :: "card list"

definition filter_card :: "string \<Rightarrow> string \<Rightarrow> card \<Rightarrow> error + card" where
  "filter_card searchTerm filterType c =
     (case card_title c of
        None \<Rightarrow> Inl TypeError
      | Some t \<Rightarrow>
          (let cardTitle = toLowerCase t;
               cardType = data_type c;
               matchesSearch = includes_str cardTitle searchTerm;
               matchesType = (filterType = [] \<or> cardType = Some filterType)
           in if matchesSearch \<and> matchesType
              then Inr (c\<lparr>display := ''block''\<rparr>)
              else Inr (c\<lparr>display := ''none''\<rparr>)))"

definition filterResources :: "page \<Rightarrow> error \<times> page + page" where
  "filterResources p =
     (case searchInput p of
        None \<Rightarrow> Inl (TypeError, p)
      | Some v \<Rightarrow>
          (let searchTerm = toLowerCase v
           in case typeFilter p of
                None \<Rightarrow> Inl (TypeError, p)
              | Some filterType \<Rightarrow>
                  (case forEach (filter_card searchTerm filterType) (resourceCards p) of
                     Inl (e, cs) \<Rightarrow> Inl (e, p\<lparr>resourceCards := cs\<rparr>)
                   | Inr cs \<Rightarrow> Inr (p\<lparr>resourceCards := cs\<rparr>))))"

text \<open>
  The listeners the load handler registers for the search: one per control that
  exists. An event on a control without listener does nothing.
\<close>

record search_listeners =
  click_listener :: bool
  keyup_listener :: bool
  change_listener :: bool

definition register_search :: "page \<Rightarrow> search_listeners" where
  "register_search p =
     \<lparr>click_listener = searchButton p,
      keyup_listener = (searchInput p \<noteq> None),
      change_listener = (typeFilter p \<noteq> None)\<rparr>"

datatype search_event = Click | Keyup string | Change

fun dispatch_search :: "search_listeners \<Rightarrow> search_event \<Rightarrow> page \<Rightarrow> error \<times> page + page" where
  "dispatch_search l Click p = (if click_listener l then filterResources p else Inr p)"
| "dispatch_search l (Keyup k) p =
     (if keyup_listener l then (if k = ''Enter'' then filterResources p else Inr p) else Inr p)"
| "dispatch_search l Change p = (if change_listener l then filterResources p else Inr p)"

text \<open>The condition of the specification for a card to be shown.\<close>

definition shown_by_spec :: "string \<Rightarrow> string \<Rightarrow> string \<Rightarrow> string option \<Rightarrow> bool" where
  "shown_by_spec Q F t ty \<longleftrightarrow>
     sublist (toLowerCase Q) (toLowerCase t) \<and> (F = [] \<or> ty = Some F)"

text \<open>A card whose display follows the condition of the specification.\<close>

definition set_display :: "string \<Rightarrow> string \<Rightarrow> card \<Rightarrow> card" where
  "set_display Q F c =
     (case card_title c of
        None \<Rightarrow> c
      | Some t \<Rightarrow>
          c\<lparr>display := (if shown_by_spec Q F t (data_type c) then ''block'' else ''none'')\<rparr>)"

text \<open>A page with a search button, a category selector and one card, but no search input.\<close>

definition page_without_input :: page where
  "page_without_input =
     \<lparr>searchInput = None, searchButton = True, typeFilter = Some [],
      resourceCards =
        [\<lparr>card_title = Some ''GPU node'', data_type = Some ''compute'', display = ''block''\<rparr>]\<rparr>"

text \<open>A page with both controls and two cards, one of which matches the search.\<close>

definition demo_page :: page where
  "demo_page =
     \<lparr>searchInput = Some ''GPU'', searchButton = True, typeFilter = Some ''compute'',
      resourceCards =
        [\<lparr>card_title = Some ''Fast gpu node'', data_type = Some ''compute'', display = []\<rparr>,
         \<lparr>card_title = Some ''Disk array'', data_type = Some ''storage'', display = []\<rparr>]\<rparr>"

section \<open>Numbers\<close>

text \<open>
  A Number value: \<open>NaN\<close>, the two infinities, or a finite binary64 value, given by the
  rational it denotes. The two zeros are one value here: multiplication, addition,
  \<open>Math.max(0, x)\<close> and \<open>toFixed\<close>, the operations of the script, give the same text
  for both.
\<close>

datatype jsnum = NaN | NegInf | Fin rat | PosInf

text \<open>
  Rounding of a rational to the nearest binary64 value, ties to the even significand.
  \<open>binade x\<close> is the exponent \<open>e\<close> with \<open>2^e \<le> x < 2^(e+1)\<close>; the spacing of the
  values around \<open>x\<close> is \<open>2^(e - 52)\<close>, and \<open>2^(-1074)\<close> below the normal range. A
  result of \<open>2^1024\<close> or more is infinite.
\<close>

definition round_half_even :: "rat \<Rightarrow> int" where
  "round_half_even q =
     (let f = \<lfloor>q\<rfloor>; r = q - of_int f
      in if r < 1 / 2 then f else if 1 / 2 < r then f + 1 else if even f then f else f + 1)"

definition binade :: "rat \<Rightarrow> int" where
  "binade x =
     (if 1 \<le> x then int (floorlog 2 (nat \<lfloor>x\<rfloor>)) - 1
      else - int (floorlog 2 (nat (\<lceil>1 / x\<rceil> - 1))))"

definition overflow_bound :: rat where
  "overflow_bound = 2 powi 1024"

definition round_pos :: "rat \<Rightarrow> jsnum" where
  "round_pos x =
     (let e = max (binade x) (- 1022);
          u = 2 powi (e - 52);
          y = of_int (round_half_even (x / u)) * u
      in if overflow_bound \<le> y then PosInf else Fin y)"

fun js_neg :: "jsnum \<Rightarrow> jsnum" where
  "js_neg NaN = NaN"
| "js_neg NegInf = PosInf"
| "js_neg (Fin q) = Fin (- q)"
| "js_neg PosInf = NegInf"

definition round_dbl :: "rat \<Rightarrow> jsnum" where
  "round_dbl x =
     (if x = 0 then Fin 0 else if 0 < x then round_pos x else js_neg (round_pos (- x)))"

text \<open>
  The operators \<open>*\<close>, \<open>+\<close> and \<open>-\<close> on Numbers and \<open>Math.max\<close> of two Numbers: the
  exact result, rounded; with the IEEE 754 cases for \<open>NaN\<close> and the infinities.
\<close>

fun js_mul :: "jsnum \<Rightarrow> jsnum \<Rightarrow> jsnum" where
  "js_mul (Fin a) (Fin b) = round_dbl (a * b)"
| "js_mul NaN _ = NaN"
| "js_mul _ NaN = NaN"
| "js_mul (Fin a) PosInf = (if a = 0 then NaN else if 0 < a then PosInf else NegInf)"
| "js_mul (Fin a) NegInf = (if a = 0 then NaN else if 0 < a then NegInf else PosInf)"
| "js_mul PosInf (Fin b) = (if b = 0 then NaN else if 0 < b then PosInf else NegInf)"
| "js_mul NegInf (Fin b) = (if b = 0 then NaN else if 0 < b then NegInf else PosInf)"
| "js_mul PosInf PosInf = PosInf"
| "js_mul PosInf NegInf = NegInf"
| "js_mul NegInf PosInf = NegInf"
| "js_mul NegInf NegInf = PosInf"

fun js_add :: "jsnum \<Rightarrow> jsnum \<Rightarrow> jsnum" where
  "js_add (Fin a) (Fin b) = round_dbl (a + b)"
| "js_add NaN _ = NaN"
| "js_add _ NaN = NaN"
| "js_add PosInf NegInf = NaN"
| "js_add NegInf PosInf = NaN"
| "js_add PosInf _ = PosInf"
| "js_add _ PosInf = PosInf"
| "js_add NegInf _ = NegInf"
| "js_add _ NegInf = NegInf"

definition js_sub :: "jsnum \<Rightarrow> jsnum \<Rightarrow> jsnum" where
  "js_sub a b = js_add a (js_neg b)"

fun js_max :: "jsnum \<Rightarrow> jsnum \<Rightarrow> jsnum" where
  "js_max NaN _ = NaN"
| "js_max _ NaN = NaN"
| "js_max PosInf _ = PosInf"
| "js_max _ PosInf = PosInf"
| "js_max NegInf b = b"
| "js_max a NegInf = a"
| "js_max (Fin a) (Fin b) = Fin (max a b)"

section \<open>Reading numbers\<close>

text \<open>
  \<open>parseFloat\<close> and the conversion of a string to a Number (\<open>ToNumber\<close>, applied by
  \<open>*\<close> to a string operand). Both read a decimal literal: an optional sign, then
  \<open>Infinity\<close> or digits with an optional point and an optional exponent.
  \<open>parseFloat\<close> skips white space at the start and reads the longest prefix that is
  a literal; \<open>ToNumber\<close> trims white space at both ends, gives 0 for the empty
  string, accepts the literals \<open>0x\<close>, \<open>0o\<close> and \<open>0b\<close> too, and gives \<open>NaN\<close> unless
  the whole string is a literal. The value of a literal is rounded to the nearest
  Number, as the engines do for literals of any length. White space, among the code
  units up to U+00FF, is tab, line feed, vertical tab, form feed, carriage return,
  space and no-break space.
\<close>

definition is_digit :: "char \<Rightarrow> bool" where
  "is_digit c \<longleftrightarrow> (48::nat) \<le> of_char c \<and> (of_char c :: nat) \<le> 57"

definition digit_val :: "char \<Rightarrow> nat" where
  "digit_val c = of_char c - 48"

definition digits_val :: "string \<Rightarrow> nat" where
  "digits_val s = foldl (\<lambda>a c. 10 * a + digit_val c) 0 s"

definition is_space :: "char \<Rightarrow> bool" where
  "is_space c \<longleftrightarrow> (of_char c :: nat) \<in> {9, 10, 11, 12, 13, 32, 160}"

text \<open>
  The exponent part at the start of a string, if there is one: its value and the rest
  of the string; otherwise 0 and the string itself.
\<close>

definition exponent_part :: "string \<Rightarrow> int \<times> string" where
  "exponent_part s =
     (case s of
        [] \<Rightarrow> (0, s)
      | c # r \<Rightarrow>
          if c = CHR ''e'' \<or> c = CHR ''E'' then
            (let (sg, r1) =
                   (case r of
                      [] \<Rightarrow> (1, r)
                    | d # t \<Rightarrow> if d = CHR ''+'' then (1, t) else if d = CHR ''-'' then (- 1, t) else (1, r));
                 ds = takeWhile is_digit r1
             in if ds = [] then (0, s) else (sg * int (digits_val ds), dropWhile is_digit r1))
          else (0, s))"

text \<open>Either the mathematical value of the literal, or infinity.\<close>

datatype literal = Infinite | MV rat

definition unsigned_literal :: "string \<Rightarrow> (literal \<times> string) option" where
  "unsigned_literal s =
     (if prefix ''Infinity'' s then Some (Infinite, drop 8 s)
      else
        (let ip = takeWhile is_digit s; r = dropWhile is_digit s
         in case r of
              [] \<Rightarrow> if ip = [] then None else Some (MV (of_nat (digits_val ip)), [])
            | c # r1 \<Rightarrow>
                if c = CHR ''.'' then
                  (let fp = takeWhile is_digit r1; r2 = dropWhile is_digit r1
                   in if ip = [] \<and> fp = [] then None
                      else
                        (let (ex, r3) = exponent_part r2
                         in Some (MV ((of_nat (digits_val ip)
                                        + of_nat (digits_val fp) / 10 ^ length fp) * 10 powi ex), r3)))
                else if ip = [] then None
                else
                  (let (ex, r3) = exponent_part r
                   in Some (MV (of_nat (digits_val ip) * 10 powi ex), r3))))"

fun number_of_literal :: "bool \<Rightarrow> literal \<Rightarrow> jsnum" where
  "number_of_literal neg Infinite = (if neg then NegInf else PosInf)"
| "number_of_literal neg (MV q) = round_dbl (if neg then - q else q)"

definition decimal_literal :: "string \<Rightarrow> (jsnum \<times> string) option" where
  "decimal_literal s =
     (let (neg, r) =
            (case s of
               [] \<Rightarrow> (False, s)
             | c # t \<Rightarrow> if c = CHR ''+'' then (False, t) else if c = CHR ''-'' then (True, t) else (False, s))
      in map_option (\<lambda>(l, rest). (number_of_literal neg l, rest)) (unsigned_literal r))"

definition parseFloat :: "string \<Rightarrow> jsnum" where
  "parseFloat s =
     (case decimal_literal (dropWhile is_space s) of
        None \<Rightarrow> NaN
      | Some (v, rest) \<Rightarrow> v)"

definition trim :: "string \<Rightarrow> string" where
  "trim s = rev (dropWhile is_space (rev (dropWhile is_space s)))"

definition radix_digit :: "char \<Rightarrow> nat option" where
  "radix_digit c =
     (let n = (of_char c :: nat)
      in if 48 \<le> n \<and> n \<le> 57 then Some (n - 48)
         else if 97 \<le> n \<and> n \<le> 102 then Some (n - 87)
         else if 65 \<le> n \<and> n \<le> 70 then Some (n - 55)
         else None)"

fun radix_value :: "nat \<Rightarrow> nat \<Rightarrow> string \<Rightarrow> nat option" where
  "radix_value b a [] = Some a"
| "radix_value b a (c # cs) =
     (case radix_digit c of
        None \<Rightarrow> None
      | Some d \<Rightarrow> if d < b then radix_value b (b * a + d) cs else None)"

definition radix_literal :: "nat \<Rightarrow> string \<Rightarrow> jsnum" where
  "radix_literal b ds =
     (if ds = [] then NaN
      else case radix_value b 0 ds of None \<Rightarrow> NaN | Some n \<Rightarrow> round_dbl (of_nat n))"

definition ToNumber :: "string \<Rightarrow> jsnum" where
  "ToNumber s =
     (let t = trim s
      in if t = [] then Fin 0
         else if prefix ''0x'' t \<or> prefix ''0X'' t then radix_literal 16 (drop 2 t)
         else if prefix ''0o'' t \<or> prefix ''0O'' t then radix_literal 8 (drop 2 t)
         else if prefix ''0b'' t \<or> prefix ''0B'' t then radix_literal 2 (drop 2 t)
         else
           (case decimal_literal t of
              None \<Rightarrow> NaN
            | Some (v, rest) \<Rightarrow> if rest = [] then v else NaN))"

section \<open>Writing numbers\<close>

text \<open>
  \<open>Number.prototype.toFixed\<close>. A number that is not finite is written \<open>NaN\<close>,
  \<open>Infinity\<close> or \<open>-Infinity\<close>; a finite one of magnitude \<open>10^21\<close> or more in
  exponent notation; any other in positional notation with the fraction digits asked
  for.
\<close>

definition digit_char :: "nat \<Rightarrow> char" where
  "digit_char d = char_of (48 + d)"

fun digits_of :: "nat \<Rightarrow> string" where
  "digits_of n = (if n < 10 then [digit_char n] else digits_of (n div 10) @ [digit_char (n mod 10)])"

declare digits_of.simps [simp del]

text \<open>
  The exponent notation of a number of \<open>10^21\<close> or more: the least count \<open>k\<close> of
  digits \<open>s\<close> for which \<open>s * 10^(n - k)\<close> rounds to the number, and among the
  candidates the one closest to it.
\<close>

definition digit_count :: "nat \<Rightarrow> nat" where
  "digit_count n = floorlog 10 n"

definition exp_candidates :: "rat \<Rightarrow> nat \<Rightarrow> nat \<Rightarrow> (nat \<times> nat) list" where
  "exp_candidates a d k =
     (let p = 10 ^ (d - k); lo = nat \<lfloor>a / of_nat p\<rfloor>
      in filter (\<lambda>(s, n). round_dbl (of_nat s * 10 ^ (n - k)) = Fin a)
           (map (\<lambda>s. if s = 10 ^ k then (10 ^ (k - 1), d + 1) else (s, d)) [lo, lo + 1]))"

definition closest_candidate :: "rat \<Rightarrow> nat \<Rightarrow> (nat \<times> nat) list \<Rightarrow> (nat \<times> nat) option" where
  "closest_candidate a k cs =
     (case cs of
        [] \<Rightarrow> None
      | [c] \<Rightarrow> Some c
      | c1 # c2 # _ \<Rightarrow>
          (let dist = (\<lambda>(s, n). \<bar>of_nat s * 10 ^ (n - k) - a\<bar>)
           in if dist c1 < dist c2 then Some c1
              else if dist c2 < dist c1 then Some c2
              else if even (fst c1) then Some c1 else Some c2))"

fun shortest_digits :: "rat \<Rightarrow> nat \<Rightarrow> nat \<Rightarrow> nat \<Rightarrow> (nat \<times> nat \<times> nat) option" where
  "shortest_digits a d k 0 = None"
| "shortest_digits a d k (Suc fuel) =
     (case closest_candidate a k (exp_candidates a d k) of
        Some (s, n) \<Rightarrow> Some (k, s, n)
      | None \<Rightarrow> shortest_digits a d (Suc k) fuel)"

definition exponential :: "rat \<Rightarrow> string" where
  "exponential a =
     (case shortest_digits a (digit_count (nat \<lfloor>a\<rfloor>)) 1 17 of
        None \<Rightarrow> []
      | Some (k, s, n) \<Rightarrow>
          (let ds = digits_of s
           in (if k = 1 then ds else take 1 ds @ ''.'' @ drop 1 ds) @ ''e+'' @ digits_of (n - 1)))"

text \<open>
  The steps of \<open>toFixed\<close> on a finite number below \<open>10^21\<close>: the integer \<open>n\<close> for which
  \<open>n / 10^f\<close> is closest to the number, the larger one of two; then its digits, padded
  with zeros to \<open>f + 1\<close> digits, with the point before the last \<open>f\<close>.
\<close>

definition nearest_scaled :: "nat \<Rightarrow> rat \<Rightarrow> nat" where
  "nearest_scaled f a = nat \<lfloor>a * 10 ^ f + 1 / 2\<rfloor>"

definition insert_point :: "nat \<Rightarrow> string \<Rightarrow> string" where
  "insert_point f m =
     (if f \<noteq> 0
      then (let m = (if length m \<le> f then replicate (f + 1 - length m) CHR ''0'' @ m else m);
                k = length m
            in take (k - f) m @ ''.'' @ drop (k - f) m)
      else m)"

definition toFixed :: "nat \<Rightarrow> jsnum \<Rightarrow> string" where
  "toFixed f x =
     (case x of
        NaN \<Rightarrow> ''NaN''
      | PosInf \<Rightarrow> ''Infinity''
      | NegInf \<Rightarrow> ''-Infinity''
      | Fin q \<Rightarrow>
          (let s = (if q < 0 then ''-'' else []); a = \<bar>q\<bar>
           in if 10 ^ 21 \<le> a then s @ exponential a
              else s @ insert_point f (digits_of (nearest_scaled f a))))"

section \<open>Cost calculator\<close>

text \<open>
  The regular expression \<open>/Cost: (\d+(?:\.\d+)?) credits\/hour/\<close>. \<open>match_at\<close> tries
  it at the start of a string and gives the text of group 1: the digits are taken
  greedily, then the optional fraction, then the rest of the sentence; when the
  fraction fails, the sentence is tried without it. \<open>regex_match\<close> is the search of
  \<open>String.prototype.match\<close>: the first start position, from the left, where the
  expression matches; \<open>None\<close> stands for the result \<open>null\<close>.
\<close>

definition match_at :: "string \<Rightarrow> string option" where
  "match_at s =
     (if prefix ''Cost: '' s then
        (let r = drop 6 s; ip = takeWhile is_digit r; r1 = dropWhile is_digit r
         in if ip = [] then None
            else
              (case r1 of
                 [] \<Rightarrow> None
               | c # r2 \<Rightarrow>
                   if c = CHR ''.'' \<and> takeWhile is_digit r2 \<noteq> []
                      \<and> prefix '' credits/hour'' (dropWhile is_digit r2)
                   then Some (ip @ ''.'' @ takeWhile is_digit r2)
                   else if prefix '' credits/hour'' r1 then Some ip
                   else None))
      else None)"

fun regex_match :: "string \<Rightarrow> string option" where
  "regex_match [] = match_at []"
| "regex_match (c # s) =
     (case match_at (c # s) of
        Some g \<Rightarrow> Some g
      | None \<Rightarrow> regex_match s)"

text \<open>
  The language of the expression, stated on its own: a rate is a nonempty run of
  digits, optionally followed by a point and another nonempty run of digits; a text
  matches when it contains \<open>Cost: \<close>, a rate and \<open> credits/hour\<close> in a row.
\<close>

definition digits :: "string \<Rightarrow> bool" where
  "digits s \<longleftrightarrow> s \<noteq> [] \<and> list_all is_digit s"

definition rate_text :: "string \<Rightarrow> bool" where
  "rate_text g \<longleftrightarrow> digits g \<or> (\<exists>ip fp. g = ip @ ''.'' @ fp \<and> digits ip \<and> digits fp)"

definition rate_sentence :: "string \<Rightarrow> string \<Rightarrow> string \<Rightarrow> string" where
  "rate_sentence pre g post = pre @ ''Cost: '' @ g @ '' credits/hour'' @ post"

definition matches_rate_sentence :: "string \<Rightarrow> bool" where
  "matches_rate_sentence t \<longleftrightarrow> (\<exists>pre g post. t = rate_sentence pre g post \<and> rate_text g)"

text \<open>
  A modal: the text of its \<open>.alert-info\<close> element and of its \<open>.calculated-cost\<close>
  element, \<open>None\<close> when \<open>querySelector\<close> finds no such element. The two elements are
  taken to be distinct and not nested, so that writing the cost leaves the info text.
\<close>

record modal =
  alert_info :: "string option"
  calculated_cost :: "string option"

text \<open>
  The listener of the \<open>input\<close> event on an hours field, given the value of the field
  and the modal that \<open>closest('.modal')\<close> finds (\<open>None\<close> when the field is in no modal).
\<close>

definition hours_input_listener ::
    "string \<Rightarrow> modal option \<Rightarrow> error \<times> modal option + modal option" where
  "hours_input_listener v closest =
     (case closest of
        None \<Rightarrow> Inr None
      | Some modal \<Rightarrow>
          (case alert_info modal of
             None \<Rightarrow> Inl (TypeError, Some modal)
           | Some info \<Rightarrow>
               (case regex_match info of
                  None \<Rightarrow> Inl (TypeError, Some modal)
                | Some g \<Rightarrow>
                    (let creditRate = parseFloat g;
                         totalCost = js_mul (ToNumber v) creditRate
                     in case calculated_cost modal of
                          None \<Rightarrow> Inr (Some modal)
                        | Some old \<Rightarrow>
                            Inr (Some (modal\<lparr>calculated_cost :=
                              Some (''Total cost: '' @ toFixed 2 totalCost @ '' credits'')\<rparr>))))))"

section \<open>Resource metrics\<close>

text \<open>
  A metric element: its text and whether its class list holds \<open>updated\<close>. The
  numbers \<open>Math.random()\<close> returns are an input of the model: \<open>rnd i\<close> is the number
  drawn for the element at index \<open>i\<close> of the loop.
\<close>

record metric =
  textContent :: string
  updated :: bool

definition fluctuation :: "jsnum \<Rightarrow> jsnum" where
  "fluctuation r = js_mul (js_sub r (Fin (1 / 2))) (Fin 10)"

definition update_metric :: "jsnum \<Rightarrow> metric \<Rightarrow> metric" where
  "update_metric r element =
     (let currentValue = parseFloat (textContent element);
          newValue = toFixed 1 (js_max (Fin 0) (js_add currentValue (fluctuation r)))
      in element\<lparr>textContent := newValue, updated := True\<rparr>)"

definition updateResourceMetrics :: "(nat \<Rightarrow> jsnum) \<Rightarrow> metric list \<Rightarrow> metric list" where
  "updateResourceMetrics rnd metricElements =
     map (\<lambda>(i, element). update_metric (rnd i) element) (enumerate 0 metricElements)"

text \<open>The callback of the one-second timer of an element.\<close>

definition remove_updated :: "metric \<Rightarrow> metric" where
  "remove_updated element = element\<lparr>updated := False\<rparr>"

text \<open>A number \<open>Math.random()\<close> can return: at least 0 and less than 1.\<close>

definition random_value :: "jsnum \<Rightarrow> bool" where
  "random_value r \<longleftrightarrow> (case r of Fin q \<Rightarrow> 0 \<le> q \<and> q < 1 | _ \<Rightarrow> False)"

text \<open>
  Fixed notation with \<open>f\<close> fraction digits: a nonempty run of digits, a point and
  exactly \<open>f\<close> digits.
\<close>

definition fixed_notation :: "nat \<Rightarrow> string \<Rightarrow> bool" where
  "fixed_notation f t =
     (let ip = takeWhile is_digit t; r = dropWhile is_digit t
      in ip \<noteq> [] \<and>
         (case r of
            [] \<Rightarrow> False
          | c # fp \<Rightarrow> c = CHR ''.'' \<and> length fp = f \<and> list_all is_digit fp))"

text \<open>
  The number a text in fixed notation with \<open>f\<close> fraction digits denotes: its digits,
  read without the point, divided by \<open>10 ^ f\<close>.
\<close>

definition fixed_value :: "nat \<Rightarrow> string \<Rightarrow> rat" where
  "fixed_value f t = of_nat (digits_val (filter is_digit t)) / 10 ^ f"

text \<open>
  The digits of \<open>n\<close> with a point before the last digit, or before the last two:
  the text of \<open>n / 10\<close> and of \<open>n / 100\<close>.
\<close>

definition fixed_1 :: "nat \<Rightarrow> string" where
  "fixed_1 n = digits_of (n div 10) @ [CHR ''.'', digit_char (n mod 10)]"

definition fixed_2 :: "nat \<Rightarrow> string" where
  "fixed_2 n = digits_of (n div 100) @ [CHR ''.'', digit_char (n div 10 mod 10), digit_char (n mod 10)]"

text \<open>
  A text that \<open>parseFloat\<close> reads as a number below \<open>10^21\<close>; \<open>-Infinity\<close> counts,
  \<open>NaN\<close> and \<open>Infinity\<close> do not.
\<close>

definition reads_below_1e21 :: "string \<Rightarrow> bool" where
  "reads_below_1e21 t =
     (case parseFloat t of
        NaN \<Rightarrow> False
      | NegInf \<Rightarrow> True
      | Fin v \<Rightarrow> v < 10 ^ 21
      | PosInf \<Rightarrow> False)"

text \<open>The metric elements after a sequence of ticks, each with its random numbers.\<close>

definition ticks :: "metric list \<Rightarrow> (nat \<Rightarrow> jsnum) list \<Rightarrow> metric list" where
  "ticks metricElements rnds = foldl (\<lambda>els rnd. updateResourceMetrics rnd els) metricElements rnds"

text \<open>The largest number below \<open>10^21\<close>: the next one above it is \<open>10^21\<close> itself.\<close>

definition below_1e21 :: rat where
  "below_1e21 = 999999999999999868928"

section \<open>Page load\<close>

text \<open>
  The global \<open>bootstrap\<close>, when it is defined: its properties \<open>Tooltip\<close> and \<open>Popover\<close>.
  \<open>None\<close> stands for a property that is no constructor (a global of that name which is
  not the toolkit, or \<open>null\<close>); \<open>Some returns\<close> for a constructor, where \<open>returns el\<close>
  tells whether \<open>new\<close> on the element \<open>el\<close> returns or throws.
\<close>

record toolkit =
  Tooltip :: "(nat \<Rightarrow> bool) option"
  Popover :: "(nat \<Rightarrow> bool) option"

text \<open>
  What the \<open>DOMContentLoaded\<close> handler finds: the search controls and cards, the
  metric elements, the global \<open>bootstrap\<close> (\<open>None\<close> when \<open>typeof bootstrap\<close> is
  \<open>'undefined'\<close>), and the elements flagged \<open>data-bs-toggle="tooltip"\<close> and
  \<open>data-bs-toggle="popover"\<close>, by identifier.
\<close>

record document =
  doc_page :: page
  doc_metrics :: "metric list"
  bootstrap :: "toolkit option"
  tooltip_elements :: "nat list"
  popover_elements :: "nat list"

datatype toolkit_call = NewTooltip nat | NewPopover nat

text \<open>
  What the handler leaves installed: the listeners of the search, whether the
  ten-second interval timer runs, and the constructions of the toolkit that returned,
  in order.
\<close>

record installed =
  listeners :: search_listeners
  interval_timer :: bool
  toolkit_calls :: "toolkit_call list"

text \<open>\<open>new ctor(el)\<close>: the error it throws, if any.\<close>

definition new_instance :: "(nat \<Rightarrow> bool) option \<Rightarrow> nat \<Rightarrow> error option" where
  "new_instance ctor el =
     (case ctor of
        None \<Rightarrow> Some TypeError
      | Some returns \<Rightarrow> if returns el then None else Some ToolkitError)"

text \<open>
  \<open>elements.forEach(el => new ctor(el))\<close>: the first construction that throws ends
  the loop, and with it the handler.
\<close>

fun construct_each ::
    "(nat \<Rightarrow> bool) option \<Rightarrow> (nat \<Rightarrow> toolkit_call) \<Rightarrow> nat list \<Rightarrow> installed
       \<Rightarrow> error \<times> installed + installed" where
  "construct_each ctor mk [] s = Inr s"
| "construct_each ctor mk (el # els) s =
     (case new_instance ctor el of
        Some e \<Rightarrow> Inl (e, s)
      | None \<Rightarrow> construct_each ctor mk els (s\<lparr>toolkit_calls := toolkit_calls s @ [mk el]\<rparr>))"

definition DOMContentLoaded :: "document \<Rightarrow> error \<times> installed + installed" where
  "DOMContentLoaded d =
     (let s = \<lparr>listeners = register_search (doc_page d),
                interval_timer = (doc_metrics d \<noteq> []),
                toolkit_calls = []\<rparr>
      in case bootstrap d of
           None \<Rightarrow> Inr s
         | Some tk \<Rightarrow>
             (case construct_each (Tooltip tk) NewTooltip (tooltip_elements d) s of
                Inl (e, s') \<Rightarrow> Inl (e, s')
              | Inr s' \<Rightarrow> construct_each (Popover tk) NewPopover (popover_elements d) s'))"

text \<open>A constructor that exists and returns on the element.\<close>

definition constructs :: "(nat \<Rightarrow> bool) option \<Rightarrow> nat \<Rightarrow> bool" where
  "constructs ctor el \<longleftrightarrow> new_instance ctor el = None"

text \<open>
  The dashboard after load: its metric elements and whether the interval timer was
  installed, which the handler does before it turns to the toolkit. Ten seconds
  passing runs \<open>updateResourceMetrics\<close> when the timer is installed, and nothing of this
  script otherwise; the page itself may gain a metric element at any time.
\<close>

record dashboard =
  metricElements :: "metric list"
  timer_installed :: bool

definition dashboard_at_load :: "document \<Rightarrow> dashboard" where
  "dashboard_at_load d =
     \<lparr>metricElements = doc_metrics d,
      timer_installed = interval_timer (state_after (DOMContentLoaded d))\<rparr>"

datatype dashboard_event = TenSeconds "nat \<Rightarrow> jsnum" | ElementAdded metric

fun dashboard_step :: "dashboard \<Rightarrow> dashboard_event \<Rightarrow> dashboard" where
  "dashboard_step s (TenSeconds rnd) =
     (if timer_installed s
      then s\<lparr>metricElements := updateResourceMetrics rnd (metricElements s)\<rparr>
      else s)"
| "dashboard_step s (ElementAdded m) = s\<lparr>metricElements := metricElements s @ [m]\<rparr>"

definition dashboard_run :: "dashboard \<Rightarrow> dashboard_event list \<Rightarrow> dashboard" where
  "dashboard_run s evs = foldl dashboard_step s evs"

fun added_elements :: "dashboard_event list \<Rightarrow> metric list" where
  "added_elements [] = []"
| "added_elements (TenSeconds rnd # evs) = added_elements evs"
| "added_elements (ElementAdded m # evs) = m # added_elements evs"

section \<open>Example pages\<close>

definition no_random :: "nat \<Rightarrow> jsnum" where
  "no_random i = Fin 0"

definition plain_document :: document where
  "plain_document =
     \<lparr>doc_page = demo_page, doc_metrics = [], bootstrap = None,
      tooltip_elements = [1, 2], popover_elements = [3]\<rparr>"

text \<open>The toolkit as it is meant: both constructors return on every element.\<close>

definition working_toolkit :: toolkit where
  "working_toolkit = \<lparr>Tooltip = Some (\<lambda>el. True), Popover = Some (\<lambda>el. True)\<rparr>"

definition toolkit_document :: document where
  "toolkit_document =
     \<lparr>doc_page = demo_page, doc_metrics = [\<lparr>textContent = ''12.5'', updated = False\<rparr>],
      bootstrap = Some working_toolkit, tooltip_elements = [1, 2], popover_elements = [3]\<rparr>"

text \<open>A global named \<open>bootstrap\<close> that has neither constructor.\<close>

definition other_global_document :: document where
  "other_global_document =
     \<lparr>doc_page = demo_page, doc_metrics = [],
      bootstrap = Some \<lparr>Tooltip = None, Popover = None\<rparr>,
      tooltip_elements = [1, 2], popover_elements = [3]\<rparr>"

definition late_metric :: metric where
  "late_metric = \<lparr>textContent = ''40.0'', updated = False\<rparr>"

text \<open>Modals of the borrowing form.\<close>

definition rate_modal :: "string \<Rightarrow> string \<Rightarrow> modal" where
  "rate_modal info old = \<lparr>alert_info = Some info, calculated_cost = Some old\<rparr>"

text \<open>The rate \<open>10^21\<close>, written out.\<close>

definition rate_1e21 :: string where
  "rate_1e21 = ''1000000000000000000000''"

text \<open>A rate of 310 digits: a one followed by 309 zeros.\<close>

definition huge_rate :: string where
  "huge_rate = ''1'' @ replicate 309 CHR ''0''"

text \<open>Metric elements and random numbers for the examples.\<close>

definition gauge :: "string \<Rightarrow> metric" where
  "gauge t = \<lparr>textContent = t, updated = False\<rparr>"

definition three_quarters :: "nat \<Rightarrow> jsnum" where
  "three_quarters i = Fin (3 / 4)"

definition one_half :: "nat \<Rightarrow> jsnum" where
  "one_half i = Fin (1 / 2)"

section \<open>Properties of the resource search\<close>

lemma includes_sublist: "includes_str s q \<longleftrightarrow> sublist q s"
proof (induction s)
  case Nil
  show ?case by auto
next
  case (Cons c s)
  show ?case by (simp add: Cons.IH sublist_Cons_right)
qed

lemma forEach_all_ok:
  "\<forall>x\<in>set xs. f x = Inr (g x) \<Longrightarrow> forEach f xs = Inr (map g xs)"
  by (induction xs) auto

lemma filter_card_titled:
  "card_title c = Some t \<Longrightarrow>
   filter_card (toLowerCase Q) F c =
     Inr (c\<lparr>display := (if shown_by_spec Q F t (data_type c) then ''block'' else ''none'')\<rparr>)"
  by (simp add: filter_card_def shown_by_spec_def includes_sublist Let_def)

text \<open>
  C1. When the search input and the category selector exist and every card has a title
  child, \<open>filterResources\<close> returns, keeps every card's title and category, and sets the
  display of each card to \<open>block\<close> exactly when the card's title contains the search
  text, both lowercased, and the selected category is empty or equal to the card's
  \<open>data-type\<close>; otherwise the display is \<open>none\<close>.
\<close>

theorem filterResources_visibility:
  assumes "searchInput p = Some Q" and "typeFilter p = Some F"
    and "\<forall>c\<in>set (resourceCards p). card_title c \<noteq> None"
  shows "\<exists>p'. filterResources p = Inr p' \<and>
           length (resourceCards p') = length (resourceCards p) \<and>
           (\<forall>i<length (resourceCards p). \<forall>t. card_title (resourceCards p ! i) = Some t \<longrightarrow>
              card_title (resourceCards p' ! i) = Some t \<and>
              data_type (resourceCards p' ! i) = data_type (resourceCards p ! i) \<and>
              (display (resourceCards p' ! i) = ''block'' \<longleftrightarrow>
                 shown_by_spec Q F t (data_type (resourceCards p ! i))) \<and>
              (\<not> shown_by_spec Q F t (data_type (resourceCards p ! i)) \<longrightarrow>
                 display (resourceCards p' ! i) = ''none''))"
proof -
  let ?g = "set_display Q F"
  have "\<forall>c\<in>set (resourceCards p). filter_card (toLowerCase Q) F c = Inr (?g c)"
    using assms(3) by (auto simp: filter_card_titled set_display_def)
  then have loop:
    "forEach (filter_card (toLowerCase Q) F) (resourceCards p) = Inr (map ?g (resourceCards p))"
    by (rule forEach_all_ok)
  have run: "filterResources p = Inr (p\<lparr>resourceCards := map ?g (resourceCards p)\<rparr>)"
    by (simp add: filterResources_def assms(1,2) loop)
  show ?thesis
    unfolding run by (auto simp: set_display_def)
qed

theorem filterResources_visibility_witness:
  "\<exists>p'. filterResources demo_page = Inr p' \<and>
     display (resourceCards p' ! 0) = ''block'' \<and> display (resourceCards p' ! 1) = ''none''"
proof -
  have a: "searchInput demo_page = Some ''GPU''" by (simp add: demo_page_def)
  have b: "typeFilter demo_page = Some ''compute''" by (simp add: demo_page_def)
  have c: "\<forall>c\<in>set (resourceCards demo_page). card_title c \<noteq> None"
    by (simp add: demo_page_def)
  have s0: "shown_by_spec ''GPU'' ''compute'' ''Fast gpu node'' (Some ''compute'')"
    by code_simp
  have s1: "\<not> shown_by_spec ''GPU'' ''compute'' ''Disk array'' (Some ''storage'')"
    by code_simp
  from filterResources_visibility [OF a b c] obtain p' where
    r: "filterResources demo_page = Inr p'" and
    v: "\<forall>i<length (resourceCards demo_page).
          \<forall>t. card_title (resourceCards demo_page ! i) = Some t \<longrightarrow>
              card_title (resourceCards p' ! i) = Some t \<and>
              data_type (resourceCards p' ! i) = data_type (resourceCards demo_page ! i) \<and>
              (display (resourceCards p' ! i) = ''block'' \<longleftrightarrow>
                 shown_by_spec ''GPU'' ''compute'' t (data_type (resourceCards demo_page ! i))) \<and>
              (\<not> shown_by_spec ''GPU'' ''compute'' t (data_type (resourceCards demo_page ! i)) \<longrightarrow>
                 display (resourceCards p' ! i) = ''none'')"
    by blast
  from v [rule_format, of 0 "''Fast gpu node''"] s0
  have d0: "display (resourceCards p' ! 0) = ''block''" by (simp add: demo_page_def)
  from v [rule_format, of 1 "''Disk array''"] s1
  have d1: "display (resourceCards p' ! 1) = ''none''" by (simp add: demo_page_def)
  from r d0 d1 show ?thesis by blast
qed

text \<open>
  C5. The claim that triggering the filter never raises fails on the code: with a search
  button but no search input, a click runs \<open>filterResources\<close>, which reads
  \<open>searchInput.value\<close> of \<open>null\<close> and throws, leaving the page as it was.
\<close>

theorem click_without_searchInput_throws:
  "dispatch_search (register_search page_without_input) Click page_without_input
     = Inl (TypeError, page_without_input)"
  by (simp add: page_without_input_def register_search_def filterResources_def)

lemma forEach_twice:
  assumes ok: "\<And>x x'. f x = Inr x' \<Longrightarrow> f x' = Inr x'"
  shows "forEach f (state_after (forEach f xs)) = forEach f xs"
proof (induction xs)
  case Nil
  show ?case by simp
next
  case (Cons x xs)
  show ?case
  proof (cases "f x")
    case (Inl e)
    then show ?thesis by simp
  next
    case (Inr x')
    then have again: "f x' = Inr x'" by (rule ok)
    show ?thesis
    proof (cases "forEach f xs")
      case (Inl a)
      then obtain e xs' where a: "forEach f xs = Inl (e, xs')" by (cases a) auto
      with Cons.IH have "forEach f xs' = Inl (e, xs')" by simp
      with Inr again a show ?thesis by simp
    next
      case r: (Inr xs')
      with Cons.IH have "forEach f xs' = Inr xs'" by simp
      with Inr again r show ?thesis by simp
    qed
  qed
qed

lemma filter_card_again: "filter_card q F c = Inr c' \<Longrightarrow> filter_card q F c' = Inr c'"
  by (auto simp: filter_card_def Let_def split: option.splits if_splits)

text \<open>
  C6. Running \<open>filterResources\<close> on the page a first run left behind gives the same
  outcome as the first run: the same page, hence the same display of every card. This
  holds whether the run returns or throws; the run never changes the search text or
  the selected category it reads.
\<close>

theorem filterResources_idempotent:
  "filterResources (state_after (filterResources p)) = filterResources p \<and>
   searchInput (state_after (filterResources p)) = searchInput p \<and>
   typeFilter (state_after (filterResources p)) = typeFilter p"
proof (cases "searchInput p")
  case None
  then show ?thesis by (simp add: filterResources_def)
next
  case (Some v)
  show ?thesis
  proof (cases "typeFilter p")
    case None
    with Some show ?thesis by (simp add: filterResources_def)
  next
    case F: (Some F)
    let ?f = "filter_card (toLowerCase v) F"
    have tw: "forEach ?f (state_after (forEach ?f (resourceCards p))) = forEach ?f (resourceCards p)"
      by (rule forEach_twice) (rule filter_card_again)
    show ?thesis
    proof (cases "forEach ?f (resourceCards p)")
      case (Inl a)
      then obtain e cs where a: "forEach ?f (resourceCards p) = Inl (e, cs)" by (cases a) auto
      with tw have "forEach ?f cs = Inl (e, cs)" by simp
      with a Some F show ?thesis by (simp add: filterResources_def)
    next
      case (Inr cs)
      with tw have "forEach ?f cs = Inr cs" by simp
      with Inr Some F show ?thesis by (simp add: filterResources_def)
    qed
  qed
qed

section \<open>Properties of rounding\<close>

lemma two_powi_pos: "0 < (2::rat) powi e"
  by simp

lemma two_powi_less_cancel: "(2::rat) powi a < 2 powi b \<Longrightarrow> a < b"
proof (rule ccontr)
  assume lt: "(2::rat) powi a < 2 powi b" and "\<not> a < b"
  then have "b \<le> a" by simp
  then have "(2::rat) powi b \<le> 2 powi a" by (intro power_int_increasing) simp_all
  with lt show False by simp
qed

lemma binade_bounds:
  assumes "0 < x"
  shows "2 powi binade x \<le> x \<and> x < 2 powi (binade x + 1)"
proof (cases "1 \<le> x")
  case True
  define n where "n = nat \<lfloor>x\<rfloor>"
  define k where "k = floorlog 2 n"
  have n1: "1 \<le> n" using True by (simp add: n_def le_nat_iff le_floor_iff)
  have "0 \<le> \<lfloor>x\<rfloor>" using True by simp
  then have nf: "(of_nat n :: rat) = of_int \<lfloor>x\<rfloor>" by (simp add: n_def)
  have nx: "of_nat n \<le> x" "x < of_nat n + 1"
    unfolding nf by linarith+
  from floorlog_bounds [of n 2] n1 have b: "2 ^ (k - 1) \<le> n" "n < 2 ^ k"
    by (simp_all add: k_def)
  have k1: "1 \<le> k" using b(2) n1 by (cases k) auto
  have be: "binade x = int k - 1" using True by (simp add: binade_def n_def k_def)
  have "(2::rat) powi (int k - 1) = 2 ^ (k - 1)"
    using k1 by (simp add: power_int_def nat_diff_distrib)
  also have "\<dots> = of_nat (2 ^ (k - 1))" by simp
  also have "\<dots> \<le> of_nat n" using b(1) by (simp only: of_nat_le_iff)
  finally have lo: "2 powi (int k - 1) \<le> x" using nx(1) by simp
  have "n + 1 \<le> 2 ^ k" using b(2) by simp
  then have "(of_nat (n + 1) :: rat) \<le> of_nat (2 ^ k)" by (simp only: of_nat_le_iff)
  then have "x < 2 ^ k" using nx(2) by simp
  then have hi: "x < 2 powi (int k - 1 + 1)" by simp
  from lo hi be show ?thesis by simp
next
  case False
  with assms have x1: "x < 1" by simp
  define c where "c = \<lceil>1 / x\<rceil>"
  define n where "n = nat (c - 1)"
  define k where "k = floorlog 2 n"
  have inv1: "1 < 1 / x" using assms x1 by (simp add: field_simps)
  have c2: "2 \<le> c" using inv1 unfolding c_def by linarith
  have cx: "1 / x \<le> of_int c" "of_int c - 1 < 1 / x"
    unfolding c_def by linarith+
  have n1: "1 \<le> n" using c2 by (simp add: n_def)
  have nc: "int n = c - 1" using c2 by (simp add: n_def)
  from floorlog_bounds [of n 2] n1 have b: "2 ^ (k - 1) \<le> n" "n < 2 ^ k"
    by (simp_all add: k_def)
  have k1: "1 \<le> k" using b(2) n1 by (cases k) auto
  have be: "binade x = - int k" using False by (simp add: binade_def n_def k_def c_def)
  have "int n < 2 ^ k" using b(2) by (metis of_nat_less_iff of_nat_numeral of_nat_power)
  then have "c \<le> 2 ^ k" using nc by simp
  then have "(of_int c :: rat) \<le> of_int (2 ^ k)" by (simp only: of_int_le_iff)
  then have "(of_int c :: rat) \<le> 2 ^ k" by simp
  then have "1 / x \<le> 2 ^ k" using cx(1) by linarith
  then have "1 \<le> 2 ^ k * x" using assms by (simp add: field_simps)
  then have lo: "2 powi (- int k) \<le> x"
    by (simp add: power_int_minus field_simps)
  have "2 ^ (k - 1) \<le> int n" using b(1) by (metis of_nat_le_iff of_nat_numeral of_nat_power)
  then have "2 ^ (k - 1) \<le> c - 1" using nc by simp
  then have "(of_int (2 ^ (k - 1)) :: rat) \<le> of_int (c - 1)" by (simp only: of_int_le_iff)
  then have "(2 ^ (k - 1) :: rat) \<le> of_int c - 1" by simp
  then have "2 ^ (k - 1) < 1 / x" using cx(2) by linarith
  then have "x * 2 ^ (k - 1) < 1" using assms by (simp add: field_simps)
  then have "x < 1 / 2 ^ (k - 1)" by (simp add: field_simps)
  also have "\<dots> = 2 powi (- int k + 1)"
    using k1 by (simp add: power_int_def nat_diff_distrib field_simps)
  finally have hi: "x < 2 powi (- int k + 1)" .
  from lo hi be show ?thesis by simp
qed

lemma binade_eq:
  assumes "0 < x" "2 powi e \<le> x" "x < 2 powi (e + 1)"
  shows "binade x = e"
proof -
  from binade_bounds [OF assms(1)]
  have b: "2 powi binade x \<le> x" "x < 2 powi (binade x + 1)" by simp_all
  have "(2::rat) powi e < 2 powi (binade x + 1)" using assms(2) b(2) by simp
  then have "e < binade x + 1" by (rule two_powi_less_cancel)
  moreover have "(2::rat) powi binade x < 2 powi (e + 1)" using assms(3) b(1) by simp
  then have "binade x < e + 1" by (rule two_powi_less_cancel)
  ultimately show ?thesis by simp
qed

lemma rhe_of_int: "round_half_even (of_int k) = k"
  by (simp add: round_half_even_def)

lemma rhe_near:
  assumes "\<bar>q - of_int k\<bar> < 1 / 2"
  shows "round_half_even q = k"
proof -
  have "\<lfloor>q\<rfloor> = k \<or> \<lfloor>q\<rfloor> = k - 1" using assms by linarith
  then show ?thesis
  proof
    assume f: "\<lfloor>q\<rfloor> = k"
    then have "q - of_int k < 1 / 2" using assms by linarith
    with f show ?thesis by (simp add: round_half_even_def)
  next
    assume f: "\<lfloor>q\<rfloor> = k - 1"
    have "of_int k - 1 / 2 < q" using assms by linarith
    then have "1 / 2 < q - of_int (k - 1)" by simp
    then have "1 / 2 < q - of_int \<lfloor>q\<rfloor>" by (simp only: f)
    then show ?thesis using f by (simp add: round_half_even_def Let_def)
  qed
qed

lemma rhe_le:
  assumes "q < of_int k + 1 / 2"
  shows "round_half_even q \<le> k"
proof -
  have fk: "\<lfloor>q\<rfloor> \<le> k" using assms by linarith
  show ?thesis
  proof (cases "\<lfloor>q\<rfloor> = k")
    case True
    then have "q - of_int \<lfloor>q\<rfloor> < 1 / 2" using assms by simp
    with True show ?thesis by (simp add: round_half_even_def)
  next
    case False
    with fk have "\<lfloor>q\<rfloor> + 1 \<le> k" by simp
    then show ?thesis by (auto simp: round_half_even_def Let_def)
  qed
qed

lemma rhe_ge:
  assumes "of_int k \<le> q"
  shows "k \<le> round_half_even q"
proof -
  have "k \<le> \<lfloor>q\<rfloor>" using assms by (simp add: le_floor_iff)
  then show ?thesis by (auto simp: round_half_even_def Let_def)
qed


lemma two_powi_split: "(2::rat) powi (a + b) = 2 powi a * 2 powi b"
  by (simp add: power_int_add)

lemma two_powi_53: "(2::rat) powi (e + 1) = 9007199254740992 * 2 powi (e - 52)"
proof -
  have "(2::rat) powi (e + 1) = 2 powi (53 + (e - 52))"
    by (rule arg_cong [where f = "power_int 2"]) simp
  also have "\<dots> = 2 powi 53 * 2 powi (e - 52)" by (rule two_powi_split)
  finally show ?thesis by simp
qed

lemma two_powi_52: "(2::rat) powi e = 4503599627370496 * 2 powi (e - 52)"
proof -
  have "(2::rat) powi e = 2 powi (52 + (e - 52))"
    by (rule arg_cong [where f = "power_int 2"]) simp
  also have "\<dots> = 2 powi 52 * 2 powi (e - 52)" by (rule two_powi_split)
  finally show ?thesis by simp
qed

text \<open>The exponent the rounding works at, and the bounds of the scaled argument.\<close>

lemma round_pos_unfold:
  "round_pos x =
     (if overflow_bound \<le> of_int (round_half_even (x / 2 powi (max (binade x) (- 1022) - 52)))
            * 2 powi (max (binade x) (- 1022) - 52)
      then PosInf
      else Fin (of_int (round_half_even (x / 2 powi (max (binade x) (- 1022) - 52)))
            * 2 powi (max (binade x) (- 1022) - 52)))"
  by (simp add: round_pos_def Let_def)

lemma scaled_less:
  assumes "0 < x" and "binade x \<le> e"
  shows "x / 2 powi (e - 52) < 9007199254740992"
proof -
  from binade_bounds [OF assms(1)] have "x < 2 powi (binade x + 1)" by simp
  also have "\<dots> \<le> 2 powi (e + 1)" using assms(2) by (intro power_int_increasing) simp_all
  finally have "x < 9007199254740992 * 2 powi (e - 52)" by (simp only: two_powi_53)
  then show ?thesis by (simp add: pos_divide_less_eq)
qed

lemma scaled_ge:
  assumes "0 < x"
  shows "4503599627370496 \<le> x / 2 powi (binade x - 52)"
proof -
  from binade_bounds [OF assms(1)] have "2 powi binade x \<le> x" by simp
  then have "4503599627370496 * 2 powi (binade x - 52) \<le> x" by (simp only: two_powi_52 [symmetric])
  then show ?thesis by (simp add: pos_le_divide_eq)
qed

lemma round_pos_le_mid:
  assumes x: "0 < x"
    and B: "B = of_int m * 2 powi (eb - 52)"
    and m: "4503599627370496 \<le> m" "m < 9007199254740992"
    and eb: "- 1022 \<le> eb" "eb \<le> 1023"
    and xB: "x < B + 2 powi (eb - 52) / 2"
  shows "\<exists>y. round_pos x = Fin y \<and> 0 \<le> y \<and> y \<le> B"
proof -
  define e where "e = max (binade x) (- 1022)"
  define u :: rat where "u = 2 powi (e - 52)"
  define ub :: rat where "ub = 2 powi (eb - 52)"
  define y where "y = of_int (round_half_even (x / u)) * u"
  have u0: "0 < u" and ub0: "0 < ub" by (simp_all add: u_def ub_def)
  have mr: "(4503599627370496::rat) \<le> of_int m" "(of_int m :: rat) + 1 \<le> 9007199254740992"
  proof -
    have "(of_int 4503599627370496 :: rat) \<le> of_int m" using m(1) by (simp only: of_int_le_iff)
    then show "(4503599627370496::rat) \<le> of_int m" by simp
    have "m + 1 \<le> 9007199254740992" using m(2) by simp
    then have "(of_int (m + 1) :: rat) \<le> of_int 9007199254740992" by (simp only: of_int_le_iff)
    then show "(of_int m :: rat) + 1 \<le> 9007199254740992" by simp
  qed
  have Bub: "B = of_int m * ub" by (simp add: B ub_def)
  have "x < of_int m * ub + ub / 2" using xB by (simp add: Bub ub_def)
  also have "\<dots> < (of_int m + 1) * ub" using ub0 by (simp add: algebra_simps)
  also have "\<dots> \<le> 9007199254740992 * ub" using mr(2) ub0 by (simp add: mult_right_mono)
  also have "\<dots> = 2 powi (eb + 1)" by (simp add: ub_def two_powi_53)
  finally have xlt: "x < 2 powi (eb + 1)" .
  from binade_bounds [OF x] have "2 powi binade x \<le> x" by simp
  with xlt have "(2::rat) powi binade x < 2 powi (eb + 1)" by simp
  then have "binade x < eb + 1" by (rule two_powi_less_cancel)
  then have e_le: "e \<le> eb" using eb(1) by (simp add: e_def)
  have be: "binade x \<le> e" by (simp add: e_def)
  have q0: "0 \<le> x / u" using x u0 by simp
  have r0: "0 \<le> round_half_even (x / u)" using q0 by (intro rhe_ge) simp
  have y0: "0 \<le> y" using r0 u0 by (simp add: y_def)
  have yB: "y \<le> B"
  proof (cases "e = eb")
    case True
    then have uu: "u = ub" by (simp add: u_def ub_def)
    have "x / u < of_int m + 1 / 2"
      using \<open>x < of_int m * ub + ub / 2\<close> ub0 by (simp add: uu pos_divide_less_eq algebra_simps)
    then have "round_half_even (x / u) \<le> m" by (rule rhe_le)
    then have "(of_int (round_half_even (x / u)) :: rat) \<le> of_int m" by (simp only: of_int_le_iff)
    then show ?thesis using ub0 by (simp add: y_def uu Bub mult_right_mono)
  next
    case False
    with e_le have lt: "e + 1 \<le> eb" by simp
    have "x / u < 9007199254740992" unfolding u_def using x be by (rule scaled_less)
    moreover have "(of_int 9007199254740992 :: rat) = 9007199254740992" by simp
    ultimately have "x / u < of_int 9007199254740992 + 1 / 2" by linarith
    then have "round_half_even (x / u) \<le> 9007199254740992" by (rule rhe_le)
    then have "(of_int (round_half_even (x / u)) :: rat) \<le> of_int 9007199254740992"
      by (simp only: of_int_le_iff)
    then have "y \<le> 9007199254740992 * u" using u0 by (simp add: y_def mult_right_mono)
    also have "\<dots> = 2 powi (e + 1)" by (simp add: u_def two_powi_53)
    also have "\<dots> \<le> 2 powi eb" using lt by (intro power_int_increasing) simp_all
    also have "\<dots> = 4503599627370496 * ub" by (simp add: ub_def two_powi_52 [symmetric])
    also have "\<dots> \<le> of_int m * ub" using mr(1) ub0 by (simp add: mult_right_mono)
    finally show ?thesis by (simp add: Bub)
  qed
  have "B < (of_int m + 1) * ub" using ub0 by (simp add: Bub algebra_simps)
  also have "\<dots> \<le> 9007199254740992 * ub" using mr(2) ub0 by (simp add: mult_right_mono)
  also have "\<dots> = 2 powi (eb + 1)" by (simp add: ub_def two_powi_53)
  also have "\<dots> \<le> overflow_bound"
    unfolding overflow_bound_def using eb(2) by (intro power_int_increasing) simp_all
  finally have "y < overflow_bound" using yB by simp
  then have "round_pos x = Fin y"
    unfolding round_pos_unfold y_def u_def e_def by (simp add: not_le [symmetric])
  with y0 yB show ?thesis by blast
qed

lemma round_pos_exact:
  assumes m: "0 < m" "m < 9007199254740992"
    and k: "- 1074 \<le> k"
    and x: "x = of_int m * 2 powi k"
    and fin: "x < overflow_bound"
  shows "round_pos x = Fin x"
proof -
  define e where "e = max (binade x) (- 1022)"
  define u :: rat where "u = 2 powi (e - 52)"
  have x0: "0 < x" using m(1) by (simp add: x)
  have "(of_int (m + 1) :: rat) \<le> of_int 9007199254740992"
    using m(2) by (simp only: of_int_le_iff)
  then have mr: "(of_int m :: rat) < 9007199254740992" by simp
  have "x < 9007199254740992 * 2 powi k" using mr by (simp add: x)
  also have "\<dots> = 2 powi (k + 52 + 1)" using two_powi_53 [of "k + 52"] by simp
  finally have "x < 2 powi (k + 52 + 1)" .
  moreover from binade_bounds [OF x0] have "2 powi binade x \<le> x" by simp
  ultimately have "(2::rat) powi binade x < 2 powi (k + 52 + 1)" by simp
  then have "binade x < k + 52 + 1" by (rule two_powi_less_cancel)
  then have e_le: "e \<le> k + 52" using k by (simp add: e_def)
  define j where "j = nat (k + 52 - e)"
  have kj: "k = int j + (e - 52)" using e_le by (simp add: j_def)
  have "(2::rat) powi k = 2 powi (int j) * u" unfolding u_def kj by (rule two_powi_split)
  then have xu: "x = of_int (m * 2 ^ j) * u" by (simp add: x)
  have u0: "u \<noteq> 0" by (simp add: u_def)
  have "x / u = of_int (m * 2 ^ j)" using u0 by (simp add: xu)
  then have "round_half_even (x / u) = m * 2 ^ j" by (simp only: rhe_of_int)
  then have "of_int (round_half_even (x / u)) * u = x" by (simp add: xu)
  then show ?thesis
    unfolding round_pos_unfold using fin by (simp add: u_def e_def not_le [symmetric])
qed

lemma round_pos_overflow:
  assumes "overflow_bound \<le> x"
  shows "round_pos x = PosInf"
proof -
  define e where "e = max (binade x) (- 1022)"
  define u :: rat where "u = 2 powi (e - 52)"
  have "0 < overflow_bound" by (simp add: overflow_bound_def)
  with assms have x0: "0 < x" by simp
  from binade_bounds [OF x0] have "x < 2 powi (binade x + 1)" by simp
  with assms have "(2::rat) powi 1024 < 2 powi (binade x + 1)"
    by (simp only: overflow_bound_def)
  then have "1024 < binade x + 1" by (rule two_powi_less_cancel)
  then have e: "e = binade x" "1024 \<le> e" by (simp_all add: e_def)
  have u0: "0 < u" by (simp add: u_def)
  have "of_int 4503599627370496 \<le> x / u"
    using scaled_ge [OF x0] by (simp add: u_def e(1))
  then have "4503599627370496 \<le> round_half_even (x / u)" by (rule rhe_ge)
  then have "(of_int 4503599627370496 :: rat) \<le> of_int (round_half_even (x / u))"
    by (simp only: of_int_le_iff)
  then have "4503599627370496 * u \<le> of_int (round_half_even (x / u)) * u"
    using u0 by (simp add: mult_right_mono)
  moreover have "4503599627370496 * u = 2 powi e" by (simp add: u_def two_powi_52 [symmetric])
  moreover have "(2::rat) powi 1024 \<le> 2 powi e" using e(2) by (intro power_int_increasing) simp_all
  ultimately have "overflow_bound \<le> of_int (round_half_even (x / u)) * u"
    by (simp only: overflow_bound_def)
  then show ?thesis unfolding round_pos_unfold by (simp add: u_def e_def)
qed

lemma round_pos_sign:
  assumes "0 < x"
  shows "round_pos x = PosInf \<or> (\<exists>y. round_pos x = Fin y \<and> 0 \<le> y)"
proof -
  define u :: rat where "u = 2 powi (max (binade x) (- 1022) - 52)"
  have u0: "0 < u" by (simp add: u_def)
  have "of_int 0 \<le> x / u" using assms u0 by simp
  then have "0 \<le> round_half_even (x / u)" by (rule rhe_ge)
  then have "0 \<le> of_int (round_half_even (x / u)) * u" using u0 by simp
  then show ?thesis unfolding round_pos_unfold u_def by simp
qed

lemma overflow_bound_large: "(10::rat) ^ 21 < overflow_bound"
proof -
  have "(10::rat) ^ 21 < 2 powi 70" by simp
  also have "\<dots> \<le> 2 powi 1024" by (intro power_int_increasing) simp_all
  finally show ?thesis by (simp only: overflow_bound_def)
qed

lemma round_dbl_exact:
  assumes m: "\<bar>m\<bar> < 9007199254740992"
    and k: "- 1074 \<le> k"
    and x: "x = of_int m * 2 powi k"
    and fin: "\<bar>x\<bar> < overflow_bound"
  shows "round_dbl x = Fin x"
proof -
  consider "m = 0" | "0 < m" | "m < 0" by linarith
  then show ?thesis
  proof cases
    case 1
    then show ?thesis by (simp add: x round_dbl_def)
  next
    case 2
    then have x0: "0 < x" by (simp add: x)
    have "round_pos x = Fin x"
      using 2 m k x fin x0 by (intro round_pos_exact [of m k]) simp_all
    with x0 show ?thesis by (simp add: round_dbl_def)
  next
    case 3
    then have x0: "x < 0" by (simp add: x mult_neg_pos)
    have "round_pos (- x) = Fin (- x)"
      using 3 m k x fin x0 by (intro round_pos_exact [of "- m" k]) simp_all
    with x0 show ?thesis by (simp add: round_dbl_def)
  qed
qed

lemma round_dbl_neg_cases:
  assumes "x \<le> 0"
  shows "round_dbl x = NegInf \<or> (\<exists>y. round_dbl x = Fin y \<and> y \<le> 0)"
proof (cases "x = 0")
  case True
  then show ?thesis by (simp add: round_dbl_def)
next
  case False
  with assms have "0 < - x" by simp
  from round_pos_sign [OF this] False assms show ?thesis
    by (auto simp: round_dbl_def)
qed

lemma js_max_zero_neg:
  assumes "x \<le> 0"
  shows "js_max (Fin 0) (round_dbl x) = Fin 0"
  using round_dbl_neg_cases [OF assms] by auto

lemma round_dbl_le_mid:
  assumes B: "B = of_int m * 2 powi (eb - 52)"
    and m: "4503599627370496 \<le> m" "m < 9007199254740992"
    and eb: "- 1022 \<le> eb" "eb \<le> 1023"
    and xB: "x < B + 2 powi (eb - 52) / 2"
  shows "\<exists>y. js_max (Fin 0) (round_dbl x) = Fin y \<and> 0 \<le> y \<and> y \<le> B"
proof (cases "0 < x")
  case True
  from round_pos_le_mid [OF True B m eb xB] True show ?thesis
    by (auto simp: round_dbl_def)
next
  case False
  then have "x \<le> 0" by simp
  then have "js_max (Fin 0) (round_dbl x) = Fin 0" by (rule js_max_zero_neg)
  moreover have "0 \<le> B" using m(1) by (simp add: B)
  ultimately show ?thesis by simp
qed

lemma round_dbl_nonneg_le_mid:
  assumes x: "0 \<le> x"
    and B: "B = of_int m * 2 powi (eb - 52)"
    and m: "4503599627370496 \<le> m" "m < 9007199254740992"
    and eb: "- 1022 \<le> eb" "eb \<le> 1023"
    and xB: "x < B + 2 powi (eb - 52) / 2"
  shows "\<exists>y. round_dbl x = Fin y \<and> 0 \<le> y \<and> y \<le> B"
proof (cases "x = 0")
  case True
  moreover have "0 \<le> B" using m(1) by (simp add: B)
  ultimately show ?thesis by (simp add: round_dbl_def)
next
  case False
  with x have x0: "0 < x" by simp
  from round_pos_le_mid [OF x0 B m eb xB] x0 show ?thesis
    by (auto simp: round_dbl_def)
qed

lemma round_dbl_abs_le:
  assumes B: "B = of_int m * 2 powi (eb - 52)"
    and m: "4503599627370496 \<le> m" "m < 9007199254740992"
    and eb: "- 1022 \<le> eb" "eb \<le> 1023"
    and xB: "\<bar>x\<bar> \<le> B"
  shows "\<exists>y. round_dbl x = Fin y \<and> \<bar>y\<bar> \<le> B"
proof -
  have half: "0 < (2::rat) powi (eb - 52) / 2" by simp
  consider "x = 0" | "0 < x" | "x < 0" by linarith
  then show ?thesis
  proof cases
    case 1
    with xB show ?thesis by (simp add: round_dbl_def)
  next
    case 2
    with xB half have "x < B + 2 powi (eb - 52) / 2" by linarith
    from round_pos_le_mid [OF 2 B m eb this] 2 show ?thesis
      by (auto simp: round_dbl_def)
  next
    case 3
    then have p: "0 < - x" by simp
    from 3 xB half have "- x < B + 2 powi (eb - 52) / 2" by linarith
    from round_pos_le_mid [OF p B m eb this] 3 show ?thesis
      by (auto simp: round_dbl_def)
  qed
qed

lemma round_pos_below:
  assumes x: "0 < x"
    and r: "round_pos x = Fin y"
    and B: "B = of_int m * 2 powi (eb - 52)"
    and m: "4503599627370496 \<le> m" "m < 9007199254740992"
    and eb: "- 1022 \<le> eb"
    and yB: "y < B + 2 powi (eb - 52)"
  shows "y \<le> B"
proof -
  define e where "e = max (binade x) (- 1022)"
  define u :: rat where "u = 2 powi (e - 52)"
  define ub :: rat where "ub = 2 powi (eb - 52)"
  define n where "n = round_half_even (x / u)"
  have u0: "0 < u" and ub0: "0 < ub" by (simp_all add: u_def ub_def)
  have y: "y = of_int n * u"
    using r unfolding round_pos_unfold n_def u_def e_def by (simp split: if_splits)
  have mr: "(4503599627370496::rat) \<le> of_int m" "(of_int m :: rat) + 1 \<le> 9007199254740992"
  proof -
    have "(of_int 4503599627370496 :: rat) \<le> of_int m" using m(1) by (simp only: of_int_le_iff)
    then show "(4503599627370496::rat) \<le> of_int m" by simp
    have "m + 1 \<le> 9007199254740992" using m(2) by simp
    then have "(of_int (m + 1) :: rat) \<le> of_int 9007199254740992" by (simp only: of_int_le_iff)
    then show "(of_int m :: rat) + 1 \<le> 9007199254740992" by simp
  qed
  have Bub: "B = of_int m * ub" by (simp add: B ub_def)
  have be: "binade x \<le> e" by (simp add: e_def)
  consider "e = eb" | "e < eb" | "eb < e" by linarith
  then show ?thesis
  proof cases
    case 1
    then have uu: "u = ub" by (simp add: u_def ub_def)
    have "of_int n * ub < (of_int m + 1) * ub" using yB by (simp add: y uu Bub ub_def algebra_simps)
    then have "(of_int n :: rat) < of_int m + 1" using ub0 by (simp only: mult_less_cancel_right_pos)
    then have "(of_int n :: rat) < of_int (m + 1)" by simp
    then have "n < m + 1" by (simp only: of_int_less_iff)
    then have "n \<le> m" by simp
    then have "(of_int n :: rat) \<le> of_int m" by (simp only: of_int_le_iff)
    then show ?thesis using ub0 by (simp add: y uu Bub mult_right_mono)
  next
    case 2
    then have lt: "e + 1 \<le> eb" by simp
    have "x / u < 9007199254740992" unfolding u_def using x be by (rule scaled_less)
    moreover have "(of_int 9007199254740992 :: rat) = 9007199254740992" by simp
    ultimately have "x / u < of_int 9007199254740992 + 1 / 2" by linarith
    then have "n \<le> 9007199254740992" unfolding n_def by (rule rhe_le)
    then have "(of_int n :: rat) \<le> of_int 9007199254740992" by (simp only: of_int_le_iff)
    then have "y \<le> 9007199254740992 * u" using u0 by (simp add: y mult_right_mono)
    also have "\<dots> = 2 powi (e + 1)" by (simp add: u_def two_powi_53)
    also have "\<dots> \<le> 2 powi eb" using lt by (intro power_int_increasing) simp_all
    also have "\<dots> = 4503599627370496 * ub" by (simp add: ub_def two_powi_52 [symmetric])
    also have "\<dots> \<le> of_int m * ub" using mr(1) ub0 by (simp add: mult_right_mono)
    finally show ?thesis by (simp add: Bub)
  next
    case 3
    with eb have eq: "e = binade x" and le: "eb + 1 \<le> e" by (simp_all add: e_def)
    have "of_int 4503599627370496 \<le> x / u" using scaled_ge [OF x] by (simp add: u_def eq)
    then have "4503599627370496 \<le> n" unfolding n_def by (rule rhe_ge)
    then have "(of_int 4503599627370496 :: rat) \<le> of_int n" by (simp only: of_int_le_iff)
    then have "4503599627370496 * u \<le> y" using u0 by (simp add: y mult_right_mono)
    moreover have "4503599627370496 * u = 2 powi e" by (simp add: u_def two_powi_52 [symmetric])
    moreover have "(2::rat) powi (eb + 1) \<le> 2 powi e" using le by (intro power_int_increasing) simp_all
    moreover have "(2::rat) powi (eb + 1) = 9007199254740992 * ub" by (simp add: ub_def two_powi_53)
    moreover have "(of_int m + 1) * ub \<le> 9007199254740992 * ub" using mr(2) ub0 by (simp add: mult_right_mono)
    moreover have "B + ub = (of_int m + 1) * ub" by (simp add: Bub algebra_simps)
    ultimately have "B + ub \<le> y" by linarith
    with yB show ?thesis by (simp add: ub_def)
  qed
qed

lemma round_dbl_below:
  assumes r: "round_dbl x = Fin y"
    and B: "B = of_int m * 2 powi (eb - 52)"
    and m: "4503599627370496 \<le> m" "m < 9007199254740992"
    and eb: "- 1022 \<le> eb"
    and yB: "y < B + 2 powi (eb - 52)"
  shows "y \<le> B"
proof (cases "0 < x")
  case True
  with r have "round_pos x = Fin y" by (simp add: round_dbl_def)
  from round_pos_below [OF True this B m eb yB] show ?thesis .
next
  case False
  then have "x \<le> 0" by simp
  from round_dbl_neg_cases [OF this] r have "y \<le> 0" by auto
  moreover have "0 \<le> B" using m(1) by (simp add: B)
  ultimately show ?thesis by simp
qed

lemma numeral_below_overflow:
  assumes "numeral k < (9007199254740992::int)"
  shows "\<bar>numeral k :: rat\<bar> < overflow_bound" "\<bar>numeral k / 2 :: rat\<bar> < overflow_bound"
proof -
  have "(of_int (numeral k) :: rat) < of_int 9007199254740992"
    using assms by (simp only: of_int_less_iff)
  then have lt: "(numeral k :: rat) < 9007199254740992" by simp
  have "(9007199254740992 :: rat) < 10 ^ 21" by simp
  with lt overflow_bound_large have b: "(numeral k :: rat) < overflow_bound" by linarith
  then show "\<bar>numeral k :: rat\<bar> < overflow_bound" by simp
  have "0 \<le> (numeral k :: rat)" by simp
  then have "(numeral k / 2 :: rat) \<le> numeral k" by linarith
  with b have "(numeral k / 2 :: rat) < overflow_bound" by linarith
  then show "\<bar>numeral k / 2 :: rat\<bar> < overflow_bound" by simp
qed

lemma round_dbl_numeral:
  assumes "numeral k < (9007199254740992::int)"
  shows "round_dbl (numeral k) = Fin (numeral k)"
proof (rule round_dbl_exact [of "numeral k" 0])
  show "\<bar>numeral k :: int\<bar> < 9007199254740992" using assms by simp
  show "\<bar>numeral k :: rat\<bar> < overflow_bound" using assms by (rule numeral_below_overflow)
qed simp_all

lemma round_dbl_half:
  assumes "numeral k < (9007199254740992::int)"
  shows "round_dbl (numeral k / 2) = Fin (numeral k / 2)"
proof (rule round_dbl_exact [of "numeral k" "- 1"])
  show "\<bar>numeral k :: int\<bar> < 9007199254740992" using assms by simp
  show "\<bar>numeral k / 2 :: rat\<bar> < overflow_bound" using assms by (rule numeral_below_overflow)
qed simp_all

lemma round_dbl_0 [simp]: "round_dbl 0 = Fin 0"
  by (simp add: round_dbl_def)

lemma round_dbl_1 [simp]: "round_dbl 1 = Fin 1"
  using overflow_bound_large by (intro round_dbl_exact [of 1 0]) simp_all

lemma js_neg_neg [simp]: "js_neg (js_neg x) = x"
  by (cases x) simp_all

lemma round_dbl_minus: "round_dbl (- x) = js_neg (round_dbl x)"
  by (simp add: round_dbl_def)

section \<open>Properties of reading and writing numbers\<close>

lemma is_digit_simps [simp]:
  "\<not> is_digit CHR '' ''" "\<not> is_digit CHR ''.''"
  by (simp_all add: is_digit_def)

lemma takeWhile_digits_append:
  assumes "list_all is_digit ds" and "\<not> is_digit c"
  shows "takeWhile is_digit (ds @ c # rest) = ds" and "dropWhile is_digit (ds @ c # rest) = c # rest"
  using assms by (induction ds) auto

lemma digits_takeWhile: "takeWhile is_digit r \<noteq> [] \<Longrightarrow> digits (takeWhile is_digit r)"
  by (simp add: digits_def list_all_iff) (meson set_takeWhileD)

lemma digit_char_numerals:
  "digit_char 0 = CHR ''0''" "digit_char 1 = CHR ''1''" "digit_char 2 = CHR ''2''"
  "digit_char 3 = CHR ''3''" "digit_char 4 = CHR ''4''" "digit_char 5 = CHR ''5''"
  "digit_char 6 = CHR ''6''" "digit_char 7 = CHR ''7''" "digit_char 8 = CHR ''8''"
  "digit_char 9 = CHR ''9''" "digit_char (Suc 0) = CHR ''1''"
  by code_simp+

lemma of_char_digit_char: "d < 10 \<Longrightarrow> (of_char (digit_char d) :: nat) = 48 + d"
  by (simp add: digit_char_def)

lemma is_digit_digit_char [simp]: "d < 10 \<Longrightarrow> is_digit (digit_char d)"
  by (simp add: is_digit_def of_char_digit_char)

lemma digit_val_digit_char [simp]: "d < 10 \<Longrightarrow> digit_val (digit_char d) = d"
  by (simp add: digit_val_def of_char_digit_char)

lemma is_digit_not_space: "is_digit c \<Longrightarrow> \<not> is_space c"
  by (auto simp: is_digit_def is_space_def)

lemma is_digit_not_sign: "is_digit c \<Longrightarrow> c \<noteq> CHR ''+'' \<and> c \<noteq> CHR ''-'' \<and> c \<noteq> CHR ''I'' \<and> c \<noteq> CHR ''.''"
  by (auto simp: is_digit_def)

lemma digits_of_small: "n < 10 \<Longrightarrow> digits_of n = [digit_char n]"
  by (simp add: digits_of.simps)

lemma digits_of_large: "10 \<le> n \<Longrightarrow> digits_of n = digits_of (n div 10) @ [digit_char (n mod 10)]"
  by (subst digits_of.simps) simp

lemma digits_of_all_digits: "list_all is_digit (digits_of n)"
proof (induction n rule: digits_of.induct)
  case (1 n)
  show ?case
  proof (cases "n < 10")
    case True
    then show ?thesis by (simp add: digits_of_small)
  next
    case False
    with 1 show ?thesis by (simp add: digits_of_large)
  qed
qed

lemma digits_of_nonempty [simp]: "digits_of n \<noteq> []"
  by (subst digits_of.simps) simp

lemma digits_val_snoc: "digits_val (ds @ [c]) = 10 * digits_val ds + digit_val c"
  by (simp add: digits_val_def)

lemma digits_val_digits_of: "digits_val (digits_of n) = n"
proof (induction n rule: digits_of.induct)
  case (1 n)
  show ?case
  proof (cases "n < 10")
    case True
    then show ?thesis by (simp add: digits_of_small digits_val_def)
  next
    case False
    with 1 show ?thesis by (simp add: digits_of_large digits_val_snoc)
  qed
qed

lemma filter_digits_of [simp]: "filter is_digit (digits_of n) = digits_of n"
  using digits_of_all_digits [of n] by (simp add: list_all_iff filter_id_conv)

lemma insert_point_1: "insert_point 1 (digits_of n) = fixed_1 n"
proof (cases "n < 10")
  case True
  then show ?thesis by (simp add: insert_point_def digits_of_small fixed_1_def digit_char_numerals)
next
  case False
  then have "digits_of n = digits_of (n div 10) @ [digit_char (n mod 10)]"
    by (simp add: digits_of_large)
  moreover have "0 < length (digits_of (n div 10))" by simp
  ultimately show ?thesis by (simp add: insert_point_def fixed_1_def Let_def)
qed

lemma insert_point_2: "insert_point 2 (digits_of n) = fixed_2 n"
proof -
  consider "n < 10" | "10 \<le> n" "n < 100" | "100 \<le> n" by linarith
  then show ?thesis
  proof cases
    case 1
    then show ?thesis
      by (simp add: insert_point_def digits_of_small fixed_2_def digit_char_numerals numeral_2_eq_2)
  next
    case 2
    then have "n div 10 < 10" by simp
    with 2 have "digits_of n = [digit_char (n div 10), digit_char (n mod 10)]"
      by (simp add: digits_of_large digits_of_small)
    moreover have "n div 100 = 0" "n div 10 mod 10 = n div 10" using 2 by simp_all
    ultimately show ?thesis
      by (simp add: insert_point_def fixed_2_def digits_of_small digit_char_numerals)
  next
    case 3
    then have "10 \<le> n" "10 \<le> n div 10" by simp_all
    then have "digits_of n = digits_of (n div 10 div 10) @ [digit_char (n div 10 mod 10), digit_char (n mod 10)]"
      by (simp add: digits_of_large)
    moreover have "n div 10 div 10 = n div 100" by (simp add: div_mult2_eq [symmetric])
    moreover have "0 < length (digits_of (n div 100))" by simp
    ultimately show ?thesis by (simp add: insert_point_def fixed_2_def Let_def)
  qed
qed

lemma toFixed_nonneg:
  assumes "0 \<le> q" "q < 10 ^ 21"
  shows "toFixed f (Fin q) = insert_point f (digits_of (nearest_scaled f q))"
  using assms by (simp add: toFixed_def Let_def not_le [symmetric])

lemma toFixed_neg:
  assumes "q < 0" "- q < 10 ^ 21"
  shows "toFixed f (Fin q) = ''-'' @ insert_point f (digits_of (nearest_scaled f (- q)))"
  using assms by (simp add: toFixed_def Let_def not_le [symmetric])

lemma takeWhile_digits_of:
  "\<not> is_digit c \<Longrightarrow> takeWhile is_digit (digits_of a @ c # rest) = digits_of a"
  "\<not> is_digit c \<Longrightarrow> dropWhile is_digit (digits_of a @ c # rest) = c # rest"
  using digits_of_all_digits [of a] by (simp_all add: takeWhile_digits_append)

lemma fixed_notation_1: "fixed_notation 1 (fixed_1 n)"
  by (simp add: fixed_notation_def fixed_1_def takeWhile_digits_of)

lemma fixed_notation_2: "fixed_notation 2 (fixed_2 n)"
  by (simp add: fixed_notation_def fixed_2_def takeWhile_digits_of)

lemma fixed_value_1: "fixed_value 1 (fixed_1 n) = of_nat n / 10"
proof -
  have "filter is_digit (fixed_1 n) = digits_of (n div 10) @ [digit_char (n mod 10)]"
    by (simp add: fixed_1_def)
  then have "digits_val (filter is_digit (fixed_1 n)) = 10 * (n div 10) + n mod 10"
    by (simp add: digits_val_snoc digits_val_digits_of)
  then show ?thesis by (simp add: fixed_value_def)
qed

lemma fixed_value_2: "fixed_value 2 (fixed_2 n) = of_nat n / 100"
proof -
  have "filter is_digit (fixed_2 n)
          = (digits_of (n div 100) @ [digit_char (n div 10 mod 10)]) @ [digit_char (n mod 10)]"
    by (simp add: fixed_2_def)
  then have "digits_val (filter is_digit (fixed_2 n))
          = 10 * (10 * (n div 100) + n div 10 mod 10) + n mod 10"
    by (simp only: digits_val_snoc digits_val_digits_of) simp
  also have "\<dots> = n"
  proof -
    have "n div 10 = 10 * (n div 10 div 10) + n div 10 mod 10" by simp
    moreover have "n div 10 div 10 = n div 100" by (simp add: div_mult2_eq [symmetric])
    ultimately have "10 * (n div 100) + n div 10 mod 10 = n div 10" by simp
    then show ?thesis by simp
  qed
  finally show ?thesis by (simp add: fixed_value_def)
qed

lemma nearest_scaled_close:
  assumes "0 \<le> a"
  shows "\<bar>of_nat (nearest_scaled f a) / 10 ^ f - a\<bar> \<le> 1 / (2 * 10 ^ f)"
proof -
  define s :: rat where "s = 10 ^ f"
  define n where "n = \<lfloor>a * s + 1 / 2\<rfloor>"
  have s0: "0 < s" by (simp add: s_def)
  have n0: "0 \<le> n" using assms s0 by (simp add: n_def)
  then have nn: "(of_nat (nat n) :: rat) = of_int n" by simp
  have "of_int n \<le> a * s + 1 / 2" "a * s + 1 / 2 < of_int n + 1"
    unfolding n_def by linarith+
  then have "\<bar>of_int n - a * s\<bar> \<le> 1 / 2" by linarith
  then have "\<bar>of_int n - a * s\<bar> / s \<le> (1 / 2) / s"
    using s0 by (intro divide_right_mono) simp_all
  moreover have "\<bar>of_int n - a * s\<bar> / s = \<bar>of_int n / s - a\<bar>"
  proof -
    have "(of_int n - a * s) / s = of_int n / s - a" using s0 by (simp add: field_simps)
    then have "\<bar>of_int n / s - a\<bar> = \<bar>of_int n - a * s\<bar> / \<bar>s\<bar>" by (simp only: abs_divide [symmetric])
    then show ?thesis using s0 by simp
  qed
  ultimately have "\<bar>of_int n / s - a\<bar> \<le> 1 / (2 * s)" by simp
  then show ?thesis unfolding nearest_scaled_def s_def [symmetric] n_def [symmetric] nn .
qed

lemma toFixed_1:
  assumes "0 \<le> q" "q < 10 ^ 21"
  shows "toFixed 1 (Fin q) = fixed_1 (nearest_scaled 1 q)"
  using assms by (simp only: toFixed_nonneg insert_point_1)

lemma toFixed_2:
  assumes "0 \<le> q" "q < 10 ^ 21"
  shows "toFixed 2 (Fin q) = fixed_2 (nearest_scaled 2 q)"
  using assms by (simp only: toFixed_nonneg insert_point_2)

lemma floor_rat_numeral: "\<lfloor>numeral a / numeral b :: rat\<rfloor> = numeral a div numeral b"
  using floor_divide_of_int_eq [of "numeral a" "numeral b", where ?'a = rat] by simp

lemmas writing =
  nearest_scaled_def floor_rat_numeral fixed_1_def fixed_2_def digits_of_small digits_of_large
  digit_char_numerals

lemmas reading =
  ToNumber_def parseFloat_def trim_def is_space_def decimal_literal_def unsigned_literal_def
  exponent_part_def is_digit_def digits_val_def digit_val_def round_dbl_numeral round_dbl_half

text \<open>At \<open>10^21\<close> the text of \<open>toFixed\<close> turns to exponent notation.\<close>

lemma round_dbl_1e21: "round_dbl (10 ^ 21) = Fin (10 ^ 21)"
proof (rule round_dbl_exact [of 476837158203125 21])
  have "(10::rat) ^ 21 < 2 powi 70" by simp
  also have "\<dots> \<le> 2 powi 1024" by (intro power_int_increasing) simp_all
  finally show "\<bar>10 ^ 21 :: rat\<bar> < overflow_bound" by (simp add: overflow_bound_def)
qed simp_all

lemma round_dbl_1e21_numeral:
  "round_dbl 1000000000000000000000 = Fin 1000000000000000000000"
  using round_dbl_1e21 by simp

lemma round_dbl_2e21: "round_dbl (2 * 10 ^ 21) = Fin (2 * 10 ^ 21)"
proof (rule round_dbl_exact [of 476837158203125 22])
  have "(2::rat) * 10 ^ 21 < 2 powi 71" by simp
  also have "\<dots> \<le> 2 powi 1024" by (intro power_int_increasing) simp_all
  finally show "\<bar>2 * 10 ^ 21 :: rat\<bar> < overflow_bound" by (simp add: overflow_bound_def)
qed simp_all

lemma exponential_1e21: "exponential (10 ^ 21) = ''1e+21''"
proof -
  have dc: "digit_count (nat \<lfloor>(10::rat) ^ 21\<rfloor>) = 22"
  proof -
    have "nat \<lfloor>(10::rat) ^ 21\<rfloor> = 10 ^ 21" by simp
    moreover have "floorlog 10 (1 * 10 ^ 21) = floorlog 10 1 + 21" by (rule floorlog_power) simp_all
    moreover have "floorlog 10 1 = 1" by (simp add: compute_floorlog)
    ultimately show ?thesis unfolding digit_count_def by (simp only: mult_1)
  qed
  have r1: "round_dbl 1000000000000000000000 = Fin 1000000000000000000000"
    using round_dbl_1e21 by simp
  have r2: "round_dbl 2000000000000000000000 = Fin 2000000000000000000000"
    using round_dbl_2e21 by simp
  have ec: "exp_candidates (10 ^ 21) 22 1 = [(1, 22)]"
    by (simp add: exp_candidates_def Let_def r1 r2)
  have "shortest_digits (10 ^ 21) 22 1 (Suc 16) = Some (1, 1, 22)"
    unfolding shortest_digits.simps ec by (simp add: closest_candidate_def)
  moreover have "(17::nat) = Suc 16" by simp
  ultimately have "shortest_digits (10 ^ 21) (digit_count (nat \<lfloor>(10::rat) ^ 21\<rfloor>)) 1 17 = Some (1, 1, 22)"
    by (simp only: dc)
  then have "exponential (10 ^ 21) = digits_of 1 @ ''e+'' @ digits_of (22 - 1)"
    unfolding exponential_def by (simp only:) simp
  then show ?thesis
    by (simp add: digits_of_small digits_of_large digit_char_numerals)
qed

lemma toFixed_1e21: "toFixed 1 (Fin (10 ^ 21)) = ''1e+21''"
  using exponential_1e21 by (simp add: toFixed_def)

section \<open>Properties of the page load\<close>

lemma construct_each_keeps:
  "interval_timer (state_after (construct_each ctor mk els s)) = interval_timer s \<and>
   listeners (state_after (construct_each ctor mk els s)) = listeners s"
  by (induction els arbitrary: s) (auto split: option.splits)

lemma construct_each_all:
  assumes "\<forall>el\<in>set els. constructs ctor el"
  shows "construct_each ctor mk els s = Inr (s\<lparr>toolkit_calls := toolkit_calls s @ map mk els\<rparr>)"
  using assms
proof (induction els arbitrary: s)
  case Nil
  show ?case by simp
next
  case (Cons el els)
  from Cons.prems have ok: "new_instance ctor el = None" and rest: "\<forall>el\<in>set els. constructs ctor el"
    by (simp_all add: constructs_def)
  show ?case by (simp add: ok Cons.IH [OF rest])
qed

lemma interval_timer_at_load:
  "interval_timer (state_after (DOMContentLoaded d)) \<longleftrightarrow> doc_metrics d \<noteq> []"
proof (cases "bootstrap d")
  case None
  then show ?thesis by (simp add: DOMContentLoaded_def)
next
  case (Some tk)
  let ?s = "\<lparr>listeners = register_search (doc_page d), interval_timer = (doc_metrics d \<noteq> []),
             toolkit_calls = []\<rparr>"
  let ?t = "construct_each (Tooltip tk) NewTooltip (tooltip_elements d) ?s"
  have t: "interval_timer (state_after ?t) = (doc_metrics d \<noteq> [])"
    by (simp add: construct_each_keeps)
  show ?thesis
  proof (cases ?t)
    case (Inl a)
    then obtain e s' where a: "?t = Inl (e, s')" by (cases a) auto
    with t have "interval_timer s' = (doc_metrics d \<noteq> [])" by simp
    with a Some show ?thesis by (simp add: DOMContentLoaded_def)
  next
    case (Inr s')
    with t have "interval_timer s' = (doc_metrics d \<noteq> [])" by simp
    with Inr Some show ?thesis by (simp add: DOMContentLoaded_def construct_each_keeps)
  qed
qed

lemma dashboard_run_without_timer:
  "\<not> timer_installed s \<Longrightarrow>
   dashboard_run s evs = s\<lparr>metricElements := metricElements s @ added_elements evs\<rparr>"
proof (induction evs arbitrary: s)
  case Nil
  show ?case by (simp add: dashboard_run_def)
next
  case (Cons ev evs)
  show ?case
  proof (cases ev)
    case (TenSeconds rnd)
    with Cons.prems have "dashboard_step s ev = s" by simp
    with Cons.IH [OF Cons.prems] TenSeconds show ?thesis by (simp add: dashboard_run_def)
  next
    case (ElementAdded m)
    let ?s = "s\<lparr>metricElements := metricElements s @ [m]\<rparr>"
    have "\<not> timer_installed ?s" using Cons.prems by simp
    from Cons.IH [OF this] ElementAdded show ?thesis by (simp add: dashboard_run_def)
  qed
qed

text \<open>
  C8. The load handler installs the interval timer exactly when the page has a metric
  element, whether or not it goes on to throw at the toolkit. When the page has none,
  the timer is never installed afterwards and no run of the page updates a metric:
  whatever elements the page gains later and however often ten seconds pass, the
  metric elements are the added ones, as they were added.
\<close>

theorem interval_timer_iff_metric_element:
  "(interval_timer (state_after (DOMContentLoaded d)) \<longleftrightarrow> doc_metrics d \<noteq> []) \<and>
   (bootstrap d = None \<longrightarrow>
      (\<exists>i. DOMContentLoaded d = Inr i \<and> (interval_timer i \<longleftrightarrow> doc_metrics d \<noteq> []))) \<and>
   (doc_metrics d = [] \<longrightarrow>
      (\<forall>evs. \<not> timer_installed (dashboard_run (dashboard_at_load d) evs) \<and>
             metricElements (dashboard_run (dashboard_at_load d) evs) = added_elements evs))"
proof (intro conjI impI allI)
  show "interval_timer (state_after (DOMContentLoaded d)) \<longleftrightarrow> doc_metrics d \<noteq> []"
    by (rule interval_timer_at_load)
next
  assume "bootstrap d = None"
  then show "\<exists>i. DOMContentLoaded d = Inr i \<and> (interval_timer i \<longleftrightarrow> doc_metrics d \<noteq> [])"
    by (simp add: DOMContentLoaded_def)
next
  fix evs
  assume none: "doc_metrics d = []"
  then have off: "\<not> timer_installed (dashboard_at_load d)"
    by (simp add: dashboard_at_load_def interval_timer_at_load)
  have start: "metricElements (dashboard_at_load d) = []"
    using none by (simp add: dashboard_at_load_def)
  show "\<not> timer_installed (dashboard_run (dashboard_at_load d) evs)"
    using off by (simp add: dashboard_run_without_timer [OF off])
  show "metricElements (dashboard_run (dashboard_at_load d) evs) = added_elements evs"
    by (simp add: dashboard_run_without_timer [OF off] start)
qed

theorem interval_timer_iff_metric_element_witness:
  "doc_metrics plain_document = [] \<and>
   metricElements (dashboard_run (dashboard_at_load plain_document)
      [ElementAdded late_metric, TenSeconds no_random, TenSeconds no_random]) = [late_metric] \<and>
   (\<exists>i. DOMContentLoaded plain_document = Inr i \<and> \<not> interval_timer i) \<and>
   interval_timer (state_after (DOMContentLoaded toolkit_document))"
proof -
  have none: "doc_metrics plain_document = []" by (simp add: plain_document_def)
  have nb: "bootstrap plain_document = None" by (simp add: plain_document_def)
  have some: "doc_metrics toolkit_document \<noteq> []" by (simp add: toolkit_document_def)
  from interval_timer_iff_metric_element [of plain_document] none
  have "metricElements (dashboard_run (dashboard_at_load plain_document)
      [ElementAdded late_metric, TenSeconds no_random, TenSeconds no_random])
      = added_elements [ElementAdded late_metric, TenSeconds no_random, TenSeconds no_random]"
    by blast
  moreover from interval_timer_iff_metric_element [of plain_document] nb none
  have "\<exists>i. DOMContentLoaded plain_document = Inr i \<and> \<not> interval_timer i" by blast
  moreover from interval_timer_iff_metric_element [of toolkit_document] some
  have "interval_timer (state_after (DOMContentLoaded toolkit_document))" by blast
  ultimately show ?thesis using none by simp
qed

text \<open>
  C9. The claim that a defined \<open>bootstrap\<close> has the constructors called on every
  flagged element fails on the code: the handler tests only that the name is defined.
  With a global of that name that has no \<open>Tooltip\<close> constructor, \<open>new\<close> throws a
  \<open>TypeError\<close> at the first flagged element, and no element is initialized.
\<close>

theorem other_global_throws:
  "bootstrap other_global_document \<noteq> None \<and>
   tooltip_elements other_global_document = [1, 2] \<and>
   DOMContentLoaded other_global_document =
     Inl (TypeError, \<lparr>listeners = register_search demo_page, interval_timer = False,
                       toolkit_calls = []\<rparr>)"
  by (simp add: other_global_document_def DOMContentLoaded_def new_instance_def)

text \<open>
  C9, amended. When the global \<open>bootstrap\<close> is undefined, the load handler returns
  without error and makes no call on the toolkit. When it is defined and its
  constructors exist and return on every element flagged for them, the handler
  returns and has called the tooltip constructor on every element flagged for a
  tooltip and then the popover constructor on every element flagged for a popover.
\<close>

theorem toolkit_initialization:
  "(bootstrap d = None \<longrightarrow>
      (\<exists>i. DOMContentLoaded d = Inr i \<and> toolkit_calls i = [])) \<and>
   (\<forall>tk. bootstrap d = Some tk \<and>
         (\<forall>el\<in>set (tooltip_elements d). constructs (Tooltip tk) el) \<and>
         (\<forall>el\<in>set (popover_elements d). constructs (Popover tk) el) \<longrightarrow>
      (\<exists>i. DOMContentLoaded d = Inr i \<and>
           toolkit_calls i = map NewTooltip (tooltip_elements d) @ map NewPopover (popover_elements d)))"
proof (intro conjI impI allI)
  assume "bootstrap d = None"
  then show "\<exists>i. DOMContentLoaded d = Inr i \<and> toolkit_calls i = []"
    by (simp add: DOMContentLoaded_def)
next
  fix tk
  assume a: "bootstrap d = Some tk \<and>
         (\<forall>el\<in>set (tooltip_elements d). constructs (Tooltip tk) el) \<and>
         (\<forall>el\<in>set (popover_elements d). constructs (Popover tk) el)"
  then have tk: "bootstrap d = Some tk"
    and t: "\<forall>el\<in>set (tooltip_elements d). constructs (Tooltip tk) el"
    and p: "\<forall>el\<in>set (popover_elements d). constructs (Popover tk) el"
    by simp_all
  show "\<exists>i. DOMContentLoaded d = Inr i \<and>
           toolkit_calls i = map NewTooltip (tooltip_elements d) @ map NewPopover (popover_elements d)"
    by (simp add: DOMContentLoaded_def tk construct_each_all [OF t] construct_each_all [OF p])
qed

theorem toolkit_initialization_witness:
  "bootstrap plain_document = None \<and>
   (\<exists>i. DOMContentLoaded plain_document = Inr i \<and> toolkit_calls i = []) \<and>
   bootstrap toolkit_document = Some working_toolkit \<and>
   (\<exists>i. DOMContentLoaded toolkit_document = Inr i \<and>
        toolkit_calls i = [NewTooltip 1, NewTooltip 2, NewPopover 3])"
proof -
  have off: "bootstrap plain_document = None" by (simp add: plain_document_def)
  have on: "bootstrap toolkit_document = Some working_toolkit" by (simp add: toolkit_document_def)
  have t: "\<forall>el\<in>set (tooltip_elements toolkit_document). constructs (Tooltip working_toolkit) el"
    and p: "\<forall>el\<in>set (popover_elements toolkit_document). constructs (Popover working_toolkit) el"
    by (simp_all add: constructs_def new_instance_def working_toolkit_def)
  from toolkit_initialization [of plain_document] off
  have a: "\<exists>i. DOMContentLoaded plain_document = Inr i \<and> toolkit_calls i = []" by blast
  from toolkit_initialization [of toolkit_document] on t p
  have "\<exists>i. DOMContentLoaded toolkit_document = Inr i \<and>
          toolkit_calls i = map NewTooltip (tooltip_elements toolkit_document)
                              @ map NewPopover (popover_elements toolkit_document)"
    by blast
  then have b: "\<exists>i. DOMContentLoaded toolkit_document = Inr i \<and>
        toolkit_calls i = [NewTooltip 1, NewTooltip 2, NewPopover 3]"
    by (simp add: toolkit_document_def)
  from off a on b show ?thesis by blast
qed

section \<open>Properties of the rate expression\<close>

lemma match_at_complete:
  assumes s: "s = ''Cost: '' @ g @ '' credits/hour'' @ post" and g: "rate_text g"
  shows "match_at s = Some g"
proof -
  from g show ?thesis unfolding rate_text_def
  proof (elim disjE exE conjE)
    assume dg: "digits g"
    then have la: "list_all is_digit g" and ne: "g \<noteq> []" by (simp_all add: digits_def)
    show ?thesis
      using la ne by (simp add: match_at_def Let_def s takeWhile_digits_append)
  next
    fix ip fp
    assume gg: "g = ip @ ''.'' @ fp" and di: "digits ip" and df: "digits fp"
    from di have la: "list_all is_digit ip" and ne: "ip \<noteq> []" by (simp_all add: digits_def)
    from df have lf: "list_all is_digit fp" and nf: "fp \<noteq> []" by (simp_all add: digits_def)
    show ?thesis
      using la ne lf nf by (simp add: match_at_def Let_def s gg takeWhile_digits_append)
  qed
qed

lemma match_at_sound:
  assumes "match_at s = Some g"
  shows "\<exists>post. s = ''Cost: '' @ g @ '' credits/hour'' @ post \<and> rate_text g"
proof -
  from assms have p: "prefix ''Cost: '' s"
    by (auto simp: match_at_def split: if_splits)
  then obtain r where s: "s = ''Cost: '' @ r" by (auto elim: prefixE)
  then have d: "drop 6 s = r" by simp
  define ip where "ip = takeWhile is_digit r"
  define r1 where "r1 = dropWhile is_digit r"
  have rr: "r = ip @ r1" by (simp add: ip_def r1_def)
  from assms p have ne: "ip \<noteq> []"
    unfolding match_at_def Let_def d ip_def by (auto split: if_splits)
  then have di: "digits ip" unfolding ip_def by (rule digits_takeWhile)
  have m0: "match_at s =
     (if ip = [] then None
      else case r1 of
        [] \<Rightarrow> None
      | c # r2 \<Rightarrow>
          if c = CHR ''.'' \<and> takeWhile is_digit r2 \<noteq> []
             \<and> prefix '' credits/hour'' (dropWhile is_digit r2)
          then Some (ip @ ''.'' @ takeWhile is_digit r2)
          else if prefix '' credits/hour'' r1 then Some ip
          else None)"
    unfolding match_at_def Let_def d ip_def r1_def using p by simp
  have m:
    "(case r1 of
        [] \<Rightarrow> None
      | c # r2 \<Rightarrow>
          if c = CHR ''.'' \<and> takeWhile is_digit r2 \<noteq> []
             \<and> prefix '' credits/hour'' (dropWhile is_digit r2)
          then Some (ip @ ''.'' @ takeWhile is_digit r2)
          else if prefix '' credits/hour'' r1 then Some ip
          else None) = Some g"
    using assms ne unfolding m0 by simp
  then obtain c r2 where r1: "r1 = c # r2" by (cases r1) auto
  show ?thesis
  proof (cases "c = CHR ''.'' \<and> takeWhile is_digit r2 \<noteq> []
                 \<and> prefix '' credits/hour'' (dropWhile is_digit r2)")
    case True
    define fp where "fp = takeWhile is_digit r2"
    from True have "prefix '' credits/hour'' (dropWhile is_digit r2)" by simp
    then obtain post where post: "dropWhile is_digit r2 = '' credits/hour'' @ post"
      by (auto elim: prefixE)
    have "r2 = fp @ dropWhile is_digit r2" by (simp add: fp_def)
    then have r2: "r2 = fp @ '' credits/hour'' @ post" by (simp only: post)
    from True have df: "digits fp" unfolding fp_def by (intro digits_takeWhile) simp
    from m r1 True have g: "g = ip @ ''.'' @ fp" by (simp add: fp_def)
    have "s = ''Cost: '' @ g @ '' credits/hour'' @ post"
      using True by (simp add: s rr r1 r2 g)
    moreover have "rate_text g" unfolding rate_text_def using g di df by blast
    ultimately show ?thesis by blast
  next
    case False
    with m r1 have pg: "prefix '' credits/hour'' r1" and g: "g = ip"
      by (auto split: if_splits)
    from pg obtain post where "r1 = '' credits/hour'' @ post" by (auto elim: prefixE)
    then have "s = ''Cost: '' @ g @ '' credits/hour'' @ post" by (simp add: s rr g)
    moreover have "rate_text g" unfolding rate_text_def using g di by blast
    ultimately show ?thesis by blast
  qed
qed

lemma regex_match_Some:
  "regex_match t = Some g \<Longrightarrow> \<exists>pre post. t = rate_sentence pre g post \<and> rate_text g"
proof (induction t)
  case Nil
  then show ?case by (simp add: match_at_def)
next
  case (Cons c t)
  show ?case
  proof (cases "match_at (c # t)")
    case None
    with Cons.prems have "regex_match t = Some g" by simp
    then obtain pre post where "t = rate_sentence pre g post" "rate_text g"
      using Cons.IH by blast
    then have "c # t = rate_sentence (c # pre) g post \<and> rate_text g"
      by (simp add: rate_sentence_def)
    then show ?thesis by blast
  next
    case (Some g')
    with Cons.prems have "g' = g" by simp
    with match_at_sound [OF Some] obtain post where
      "c # t = rate_sentence [] g post" "rate_text g" by (auto simp: rate_sentence_def)
    then show ?thesis by blast
  qed
qed

lemma regex_match_sound:
  "regex_match t = Some g \<Longrightarrow> matches_rate_sentence t"
  unfolding matches_rate_sentence_def using regex_match_Some by blast

lemma regex_match_complete:
  "rate_text g \<Longrightarrow> \<exists>g'. regex_match (pre @ ''Cost: '' @ g @ '' credits/hour'' @ post) = Some g'"
proof (induction pre)
  case Nil
  have "match_at (''Cost: '' @ g @ '' credits/hour'' @ post) = Some g"
    using Nil by (intro match_at_complete) simp_all
  then show ?case by simp
next
  case (Cons c pre)
  from Cons.IH [OF Cons.prems] show ?case
    by (cases "match_at ((c # pre) @ ''Cost: '' @ g @ '' credits/hour'' @ post)") auto
qed

lemma regex_match_None_iff: "regex_match t = None \<longleftrightarrow> \<not> matches_rate_sentence t"
proof
  assume n: "regex_match t = None"
  show "\<not> matches_rate_sentence t"
  proof
    assume "matches_rate_sentence t"
    then obtain pre g post where "t = pre @ ''Cost: '' @ g @ '' credits/hour'' @ post" "rate_text g"
      unfolding matches_rate_sentence_def rate_sentence_def by blast
    with regex_match_complete [of g pre post] n show False by auto
  qed
next
  assume "\<not> matches_rate_sentence t"
  with regex_match_sound [of t] show "regex_match t = None"
    by (cases "regex_match t") auto
qed

lemma parseFloat_digits:
  assumes "digits g"
  shows "parseFloat g = round_dbl (of_nat (digits_val g))"
proof -
  from assms obtain c cs where g: "g = c # cs" and c: "is_digit c" and all: "list_all is_digit g"
    by (cases g) (auto simp: digits_def)
  have sp: "dropWhile is_space g = g" using c by (simp add: g is_digit_not_space)
  have tw: "takeWhile is_digit g = g" "dropWhile is_digit g = []"
    using all by (simp_all add: list_all_iff)
  have np: "\<not> prefix ''Infinity'' g" using is_digit_not_sign [OF c] by (auto simp: g)
  have "unsigned_literal g = Some (MV (of_nat (digits_val g)), [])"
    unfolding unsigned_literal_def Let_def tw using np by (simp add: g)
  moreover have "decimal_literal g = map_option (\<lambda>(l, rest). (number_of_literal False l, rest)) (unsigned_literal g)"
    using is_digit_not_sign [OF c] by (simp add: decimal_literal_def g)
  ultimately show ?thesis by (simp add: parseFloat_def sp)
qed

lemma digits_val_zeros: "digits_val (ds @ replicate n CHR ''0'') = digits_val ds * 10 ^ n"
proof (induction n)
  case 0
  show ?case by simp
next
  case (Suc n)
  have "ds @ replicate (Suc n) CHR ''0'' = (ds @ replicate n CHR ''0'') @ [CHR ''0'']"
    by (simp add: replicate_append_same)
  then have "digits_val (ds @ replicate (Suc n) CHR ''0'')
               = 10 * digits_val (ds @ replicate n CHR ''0'') + digit_val CHR ''0''"
    by (simp only: digits_val_snoc)
  then show ?case by (simp add: Suc.IH digit_val_def)
qed

lemma overflow_bound_le_10_309: "overflow_bound \<le> 10 ^ 309"
  by (simp add: overflow_bound_def)

lemma regex_match_sentence:
  assumes "CHR ''C'' \<notin> set pre" and "rate_text g"
  shows "regex_match (rate_sentence pre g post) = Some g"
  using assms(1) unfolding rate_sentence_def
proof (induction pre)
  case Nil
  have "match_at (''Cost: '' @ g @ '' credits/hour'' @ post) = Some g"
    using assms(2) by (intro match_at_complete) simp_all
  then show ?case by simp
next
  case (Cons c pre)
  then have "c \<noteq> CHR ''C''" by auto
  then have "match_at ((c # pre) @ ''Cost: '' @ g @ '' credits/hour'' @ post) = None"
    by (simp add: match_at_def)
  with Cons show ?case by simp
qed

lemma huge_rate_text: "rate_text huge_rate"
  by (simp add: rate_text_def digits_def huge_rate_def is_digit_def list_all_iff)

lemma parseFloat_huge_rate: "parseFloat huge_rate = PosInf"
proof -
  have d: "digits huge_rate"
    by (simp add: digits_def huge_rate_def is_digit_def list_all_iff)
  have "digits_val huge_rate = 10 ^ 309"
    unfolding huge_rate_def digits_val_zeros by (simp add: digits_val_def digit_val_def)
  then have "parseFloat huge_rate = round_dbl (10 ^ 309)"
    by (simp add: parseFloat_digits [OF d])
  also have "\<dots> = round_pos (10 ^ 309)" by (simp add: round_dbl_def)
  also have "\<dots> = PosInf" using overflow_bound_le_10_309 by (rule round_pos_overflow)
  finally show ?thesis .
qed

section \<open>Properties of the cost calculator\<close>

lemma listener_on_sentence:
  assumes "CHR ''C'' \<notin> set pre" and "rate_text rate"
  shows "hours_input_listener hours
           (Some (rate_modal (rate_sentence pre rate post) old)) =
         Inr (Some (rate_modal (rate_sentence pre rate post)
           (''Total cost: '' @ toFixed 2 (js_mul (ToNumber hours) (parseFloat rate)) @ '' credits'')))"
  by (simp add: hours_input_listener_def rate_modal_def regex_match_sentence [OF assms] Let_def)

lemma listener_on_match:
  assumes "alert_info m = Some info" and "regex_match info = Some rate"
    and "calculated_cost m = Some old"
  shows "hours_input_listener hours (Some m) =
           Inr (Some (m\<lparr>calculated_cost := Some (''Total cost: ''
                  @ toFixed 2 (js_mul (ToNumber hours) (parseFloat rate)) @ '' credits'')\<rparr>))"
  using assms by (simp add: hours_input_listener_def Let_def)

lemma parseFloat_rate_1e21: "parseFloat rate_1e21 = Fin (10 ^ 21)"
proof -
  have d: "digits rate_1e21"
    by (simp add: digits_def rate_1e21_def is_digit_def)
  have "digits_val rate_1e21 = 10 ^ 21"
    by (simp add: rate_1e21_def digits_val_def digit_val_def)
  then show ?thesis
    by (simp only: parseFloat_digits [OF d] of_nat_power of_nat_numeral round_dbl_1e21)
qed

lemma toFixed_2_format:
  assumes "\<bar>q\<bar> < 10 ^ 21"
  shows "\<exists>t. toFixed 2 (Fin q) = (if q < 0 then ''-'' else []) @ t \<and> fixed_notation 2 t \<and>
           \<bar>fixed_value 2 t - \<bar>q\<bar>\<bar> \<le> 1 / 200"
proof -
  define t where "t = fixed_2 (nearest_scaled 2 \<bar>q\<bar>)"
  have "toFixed 2 (Fin q) = (if q < 0 then ''-'' else []) @ t"
  proof (cases "q < 0")
    case True
    with assms have "- q < 10 ^ 21" by simp
    with True show ?thesis by (simp add: toFixed_neg insert_point_2 t_def)
  next
    case False
    with assms have "0 \<le> q" "q < 10 ^ 21" by simp_all
    then show ?thesis using False by (simp add: toFixed_2 t_def)
  qed
  moreover have "fixed_notation 2 t" unfolding t_def by (rule fixed_notation_2)
  moreover have "\<bar>fixed_value 2 t - \<bar>q\<bar>\<bar> \<le> 1 / 200"
    using nearest_scaled_close [of "\<bar>q\<bar>" 2] by (simp add: t_def fixed_value_2)
  ultimately show ?thesis by blast
qed

text \<open>
  C2. The claim that the text written is always the product with two decimal places
  fails on the code: \<open>toFixed\<close> leaves positional notation at \<open>10^21\<close>. With hours 1
  and the rate \<open>10^21\<close> the text of the output element becomes
  \<open>Total cost: 1e+21 credits\<close>.
\<close>

theorem cost_output_1e21:
  "hours_input_listener ''1'' (Some (rate_modal (rate_sentence [] rate_1e21 []) [])) =
     Inr (Some (rate_modal (rate_sentence [] rate_1e21 []) ''Total cost: 1e+21 credits'')) \<and>
   rate_text rate_1e21 \<and> \<not> fixed_notation 2 ''1e+21''"
proof (intro conjI)
  have r: "rate_text rate_1e21"
    by (simp add: rate_text_def digits_def rate_1e21_def is_digit_def)
  then show "rate_text rate_1e21" .
  have one: "ToNumber ''1'' = Fin 1" by (simp add: reading)
  have "js_mul (ToNumber ''1'') (parseFloat rate_1e21) = Fin (10 ^ 21)"
    by (simp add: one parseFloat_rate_1e21 round_dbl_1e21_numeral)
  then have "toFixed 2 (js_mul (ToNumber ''1'') (parseFloat rate_1e21)) = ''1e+21''"
    using exponential_1e21 by (simp add: toFixed_def)
  with listener_on_sentence [of "[]" rate_1e21 "''1''" "[]" "[]"] r
  show "hours_input_listener ''1'' (Some (rate_modal (rate_sentence [] rate_1e21 []) [])) =
     Inr (Some (rate_modal (rate_sentence [] rate_1e21 []) ''Total cost: 1e+21 credits''))"
    by simp
  show "\<not> fixed_notation 2 ''1e+21''"
    by (simp add: fixed_notation_def is_digit_def)
qed

text \<open>
  C2, amended. On an input event on an hours field in a modal whose info text the
  expression matches with the rate as its group, and which has an output element:
  when the product of the field's value and the rate is a finite number below \<open>10^21\<close>
  in magnitude, the listener returns and sets the text of the output element to
  \<open>Total cost: \<close>, the product with two decimal places, and \<open> credits\<close>: an optional
  sign, digits, a point and two digits, within 0.005 of the product. The modal is
  otherwise unchanged. Hours 3 at rate 2.5 give \<open>Total cost: 7.50 credits\<close>, and hours
  2 with the rate text \<open>Cost: 4 credits/hour\<close> give \<open>Total cost: 8.00 credits\<close>.
\<close>

theorem cost_output:
  assumes "alert_info m = Some info" and "regex_match info = Some rate"
    and "calculated_cost m = Some old"
    and "js_mul (ToNumber hours) (parseFloat rate) = Fin q" and "\<bar>q\<bar> < 10 ^ 21"
  shows "(\<exists>pre post. info = rate_sentence pre rate post \<and> rate_text rate) \<and>
         (\<exists>t. hours_input_listener hours (Some m) =
                Inr (Some (m\<lparr>calculated_cost := Some (''Total cost: ''
                       @ ((if q < 0 then ''-'' else []) @ t) @ '' credits'')\<rparr>)) \<and>
              fixed_notation 2 t \<and> \<bar>fixed_value 2 t - \<bar>q\<bar>\<bar> \<le> 1 / 200) \<and>
         hours_input_listener ''3'' (Some (rate_modal ''Cost: 2.5 credits/hour'' old)) =
           Inr (Some (rate_modal ''Cost: 2.5 credits/hour'' ''Total cost: 7.50 credits'')) \<and>
         hours_input_listener ''2'' (Some (rate_modal ''Cost: 4 credits/hour'' old)) =
           Inr (Some (rate_modal ''Cost: 4 credits/hour'' ''Total cost: 8.00 credits''))"
proof (intro conjI)
  from regex_match_Some [OF assms(2)]
  show "\<exists>pre post. info = rate_sentence pre rate post \<and> rate_text rate" .
next
  from toFixed_2_format [OF assms(5)] obtain t where
    t: "toFixed 2 (Fin q) = (if q < 0 then ''-'' else []) @ t" and
    fn: "fixed_notation 2 t" and fv: "\<bar>fixed_value 2 t - \<bar>q\<bar>\<bar> \<le> 1 / 200"
    by blast
  have "hours_input_listener hours (Some m) =
          Inr (Some (m\<lparr>calculated_cost := Some (''Total cost: ''
                 @ toFixed 2 (js_mul (ToNumber hours) (parseFloat rate)) @ '' credits'')\<rparr>))"
    using assms(1,2,3) by (rule listener_on_match)
  then have "hours_input_listener hours (Some m) =
          Inr (Some (m\<lparr>calculated_cost := Some (''Total cost: ''
                 @ ((if q < 0 then ''-'' else []) @ t) @ '' credits'')\<rparr>))"
    by (simp only: assms(4) t)
  with fn fv
  show "\<exists>t. hours_input_listener hours (Some m) =
                Inr (Some (m\<lparr>calculated_cost := Some (''Total cost: ''
                       @ ((if q < 0 then ''-'' else []) @ t) @ '' credits'')\<rparr>)) \<and>
              fixed_notation 2 t \<and> \<bar>fixed_value 2 t - \<bar>q\<bar>\<bar> \<le> 1 / 200"
    by blast
next
  have r: "rate_text ''2.5''"
    unfolding rate_text_def digits_def
    by (intro disjI2 exI [of _ "''2''"] exI [of _ "''5''"]) (simp add: is_digit_def)
  have n: "toFixed 2 (js_mul (ToNumber ''3'') (parseFloat ''2.5'')) = ''7.50''"
    by (simp add: reading toFixed_2 writing)
  from listener_on_sentence [of "[]" "''2.5''" "''3''" "[]" old] r n
  show "hours_input_listener ''3'' (Some (rate_modal ''Cost: 2.5 credits/hour'' old)) =
           Inr (Some (rate_modal ''Cost: 2.5 credits/hour'' ''Total cost: 7.50 credits''))"
    by (simp add: rate_sentence_def)
next
  have r: "rate_text ''4''"
    by (simp add: rate_text_def digits_def is_digit_def)
  have n: "toFixed 2 (js_mul (ToNumber ''2'') (parseFloat ''4'')) = ''8.00''"
    by (simp add: reading toFixed_2 writing)
  from listener_on_sentence [of "[]" "''4''" "''2''" "[]" old] r n
  show "hours_input_listener ''2'' (Some (rate_modal ''Cost: 4 credits/hour'' old)) =
           Inr (Some (rate_modal ''Cost: 4 credits/hour'' ''Total cost: 8.00 credits''))"
    by (simp add: rate_sentence_def)
qed

theorem cost_output_witness:
  "\<exists>t. hours_input_listener ''-1.5'' (Some (rate_modal ''CPU node. Cost: 10 credits/hour'' ''old'')) =
         Inr (Some ((rate_modal ''CPU node. Cost: 10 credits/hour'' ''old'')
           \<lparr>calculated_cost := Some (''Total cost: '' @ (''-'' @ t) @ '' credits'')\<rparr>)) \<and>
       fixed_notation 2 t \<and> \<bar>fixed_value 2 t - 15\<bar> \<le> 1 / 200"
proof -
  let ?m = "rate_modal ''CPU node. Cost: 10 credits/hour'' ''old''"
  have a: "alert_info ?m = Some ''CPU node. Cost: 10 credits/hour''"
    and c: "calculated_cost ?m = Some ''old''"
    by (simp_all add: rate_modal_def)
  have b: "regex_match ''CPU node. Cost: 10 credits/hour'' = Some ''10''"
    by (simp add: match_at_def is_digit_def)
  have p: "js_mul (ToNumber ''-1.5'') (parseFloat ''10'') = Fin (- 15)"
    by (simp add: reading round_dbl_minus)
  have q: "\<bar>- 15 :: rat\<bar> < 10 ^ 21" by simp
  from cost_output [OF a b c p q] show ?thesis by simp
qed

text \<open>
  C3. When the modal has an info element whose text does not match the expression
  \<open>Cost: <number> credits/hour\<close>, the listener throws a \<open>TypeError\<close> and leaves
  the modal, and so the text of its output element, as it was.
\<close>

theorem unmatched_rate_throws:
  assumes "alert_info m = Some info" and "\<not> matches_rate_sentence info"
  shows "hours_input_listener hours (Some m) = Inl (TypeError, Some m)"
proof -
  from assms(2) have "regex_match info = None" by (simp add: regex_match_None_iff)
  with assms(1) show ?thesis by (simp add: hours_input_listener_def)
qed

theorem unmatched_rate_throws_witness:
  "hours_input_listener ''3'' (Some (rate_modal ''Contact us for pricing'' ''Total cost: 1.00 credits''))
     = Inl (TypeError, Some (rate_modal ''Contact us for pricing'' ''Total cost: 1.00 credits''))"
proof -
  have a: "alert_info (rate_modal ''Contact us for pricing'' ''Total cost: 1.00 credits'')
             = Some ''Contact us for pricing''"
    by (simp add: rate_modal_def)
  have "regex_match ''Contact us for pricing'' = None" by (simp add: match_at_def)
  then have b: "\<not> matches_rate_sentence ''Contact us for pricing''"
    by (rule iffD1 [OF regex_match_None_iff])
  from unmatched_rate_throws [OF a b] show ?thesis .
qed

text \<open>
  C10. The claim that an empty hours field always gives \<open>Total cost: 0.00 credits\<close>
  fails for a rate too large for a number: with a rate of 310 digits \<open>parseFloat\<close>
  gives \<open>Infinity\<close>, the product of 0 and \<open>Infinity\<close> is \<open>NaN\<close>, and the text becomes
  \<open>Total cost: NaN credits\<close>.
\<close>

theorem empty_hours_huge_rate:
  "hours_input_listener [] (Some (rate_modal (rate_sentence [] huge_rate []) [])) =
     Inr (Some (rate_modal (rate_sentence [] huge_rate []) ''Total cost: NaN credits''))"
proof -
  have z: "ToNumber [] = Fin 0" by (simp add: reading)
  have "toFixed 2 (js_mul (ToNumber []) (parseFloat huge_rate)) = ''NaN''"
    by (simp add: z parseFloat_huge_rate toFixed_def)
  with listener_on_sentence [of "[]" huge_rate "[]" "[]" "[]"] huge_rate_text
  show ?thesis by simp
qed

text \<open>
  C10, amended. With an empty hours field, an info text the expression matches with a
  rate that \<open>parseFloat\<close> reads as a finite number, and an output element, the text of
  the output element becomes \<open>Total cost: 0.00 credits\<close>: the empty string converts
  to 0.
\<close>

theorem empty_hours_zero_cost:
  assumes "alert_info m = Some info" and "regex_match info = Some rate"
    and "calculated_cost m = Some old" and "parseFloat rate = Fin r"
  shows "ToNumber [] = Fin 0 \<and>
         (\<exists>pre post. info = rate_sentence pre rate post \<and> rate_text rate) \<and>
         hours_input_listener [] (Some m) =
           Inr (Some (m\<lparr>calculated_cost := Some ''Total cost: 0.00 credits''\<rparr>))"
proof (intro conjI)
  show z: "ToNumber [] = Fin 0" by (simp add: reading)
  from regex_match_Some [OF assms(2)]
  show "\<exists>pre post. info = rate_sentence pre rate post \<and> rate_text rate" .
  have "toFixed 2 (js_mul (ToNumber []) (parseFloat rate)) = ''0.00''"
    by (simp add: z assms(4) toFixed_2 writing)
  with listener_on_match [OF assms(1,2,3), of "[]"]
  show "hours_input_listener [] (Some m) =
           Inr (Some (m\<lparr>calculated_cost := Some ''Total cost: 0.00 credits''\<rparr>))"
    by simp
qed

theorem empty_hours_zero_cost_witness:
  "hours_input_listener []
     (Some (rate_modal ''CPU node. Cost: 2.5 credits/hour'' ''Total cost: 7.50 credits'')) =
   Inr (Some (rate_modal ''CPU node. Cost: 2.5 credits/hour'' ''Total cost: 0.00 credits''))"
proof -
  let ?m = "rate_modal ''CPU node. Cost: 2.5 credits/hour'' ''Total cost: 7.50 credits''"
  have a: "alert_info ?m = Some ''CPU node. Cost: 2.5 credits/hour''"
    and c: "calculated_cost ?m = Some ''Total cost: 7.50 credits''"
    by (simp_all add: rate_modal_def)
  have b: "regex_match ''CPU node. Cost: 2.5 credits/hour'' = Some ''2.5''"
    by (simp add: match_at_def is_digit_def)
  have f: "parseFloat ''2.5'' = Fin (5 / 2)" by (simp add: reading)
  from empty_hours_zero_cost [OF a b c f] show ?thesis by (simp add: rate_modal_def)
qed

section \<open>Properties of the metric update\<close>

lemma below_1e21_repr: "below_1e21 = of_int 7629394531249999 * 2 powi (69 - 52)"
  by (simp add: below_1e21_def)

lemma below_1e21_next: "below_1e21 + 2 powi (69 - 52) = 10 ^ 21"
  by (simp add: below_1e21_def)

lemma below_1e21_half: "below_1e21 + 2 powi (69 - 52) / 2 = below_1e21 + 65536"
  by simp

lemma fluctuation_bounds:
  assumes "random_value r"
  shows "\<exists>d. fluctuation r = Fin d \<and> - 5 \<le> d \<and> d \<le> 5"
proof -
  from assms obtain q where r: "r = Fin q" and q: "0 \<le> q" "q < 1"
    by (cases r) (auto simp: random_value_def)
  have "\<bar>q - 1 / 2\<bar> \<le> 1 / 2" using q by linarith
  with round_dbl_abs_le [of "1 / 2" 4503599627370496 "- 1" "q - 1 / 2"]
  obtain s where s: "round_dbl (q - 1 / 2) = Fin s" and sb: "\<bar>s\<bar> \<le> 1 / 2"
    by auto
  have "\<bar>s * 10\<bar> \<le> 5" using sb by linarith
  with round_dbl_abs_le [of 5 5629499534213120 2 "s * 10"]
  obtain d where d: "round_dbl (s * 10) = Fin d" and db: "\<bar>d\<bar> \<le> 5"
    by auto
  have "fluctuation r = Fin d" by (simp add: fluctuation_def js_sub_def r s d)
  moreover have "- 5 \<le> d" "d \<le> 5" using db by linarith+
  ultimately show ?thesis by blast
qed

lemma number_of_literal_Fin:
  "number_of_literal neg l = Fin v \<Longrightarrow> \<exists>x. round_dbl x = Fin v"
  by (cases l) (auto split: if_splits)

lemma parseFloat_Fin:
  assumes "parseFloat t = Fin v"
  shows "\<exists>x. round_dbl x = Fin v"
proof -
  from assms obtain neg l where "number_of_literal neg l = Fin v"
    by (auto simp: parseFloat_def decimal_literal_def Let_def
             split: option.splits prod.splits list.splits if_splits)
  then show ?thesis by (rule number_of_literal_Fin)
qed

lemma parseFloat_fixed_1: "parseFloat (fixed_1 n) = round_dbl (of_nat n / 10)"
proof -
  define a where "a = n div 10"
  define b where "b = n mod 10"
  have b10: "b < 10" by (simp add: b_def)
  obtain c cs where da: "digits_of a = c # cs" by (cases "digits_of a") simp_all
  have c: "is_digit c" using digits_of_all_digits [of a] by (simp add: da)
  have g: "fixed_1 n = digits_of a @ CHR ''.'' # [digit_char b]"
    by (simp add: fixed_1_def a_def b_def)
  have g': "fixed_1 n = c # (cs @ CHR ''.'' # [digit_char b])" by (simp add: g da)
  have sp: "dropWhile is_space (fixed_1 n) = fixed_1 n"
    using c by (simp add: g' is_digit_not_space)
  have np: "\<not> prefix ''Infinity'' (fixed_1 n)" using is_digit_not_sign [OF c] by (auto simp: g')
  have tw: "takeWhile is_digit (fixed_1 n) = digits_of a"
    "dropWhile is_digit (fixed_1 n) = CHR ''.'' # [digit_char b]"
    unfolding g by (simp_all add: takeWhile_digits_of)
  have fp: "takeWhile is_digit [digit_char b] = [digit_char b]"
    "dropWhile is_digit [digit_char b] = []"
    using b10 by simp_all
  have "unsigned_literal (fixed_1 n)
          = Some (MV ((of_nat (digits_val (digits_of a))
                        + of_nat (digits_val [digit_char b]) / 10 ^ length [digit_char b]) * 10 powi 0), [])"
    unfolding unsigned_literal_def Let_def tw using np b10
    by (simp add: fp exponent_part_def)
  moreover have "digits_val [digit_char b] = b" using b10 by (simp add: digits_val_def)
  moreover have "(of_nat a + of_nat b / 10 :: rat) = of_nat n / 10"
  proof -
    have "n = 10 * a + b" by (simp add: a_def b_def)
    then have "(of_nat n :: rat) = 10 * of_nat a + of_nat b" by simp
    then show ?thesis by simp
  qed
  ultimately have u: "unsigned_literal (fixed_1 n) = Some (MV (of_nat n / 10), [])"
    by (simp add: digits_val_digits_of)
  have "decimal_literal (fixed_1 n)
          = map_option (\<lambda>(l, rest). (number_of_literal False l, rest)) (unsigned_literal (fixed_1 n))"
    using is_digit_not_sign [OF c] by (simp add: decimal_literal_def g')
  with u show ?thesis by (simp add: parseFloat_def sp)
qed

lemma tick_value_bounded:
  assumes t: "reads_below_1e21 t" and d: "- 5 \<le> d" "d \<le> 5"
  shows "\<exists>y. js_max (Fin 0) (js_add (parseFloat t) (Fin d)) = Fin y \<and> 0 \<le> y \<and> y \<le> below_1e21"
proof (cases "parseFloat t")
  case NaN
  with t show ?thesis by (simp add: reads_below_1e21_def)
next
  case PosInf
  with t show ?thesis by (simp add: reads_below_1e21_def)
next
  case NegInf
  then show ?thesis by (simp add: below_1e21_def)
next
  case (Fin v)
  with t have v: "v < 10 ^ 21" by (simp add: reads_below_1e21_def)
  from parseFloat_Fin [OF Fin] obtain x where x: "round_dbl x = Fin v" ..
  have "v < below_1e21 + 2 powi (69 - 52)" using v by (simp only: below_1e21_next)
  with round_dbl_below [OF x below_1e21_repr] have vb: "v \<le> below_1e21" by simp
  have "v + d < below_1e21 + 65536" using vb d(2) by simp
  then have "v + d < below_1e21 + 2 powi (69 - 52) / 2" by (simp only: below_1e21_half)
  with round_dbl_le_mid [OF below_1e21_repr, of "v + d"]
  have "\<exists>y. js_max (Fin 0) (round_dbl (v + d)) = Fin y \<and> 0 \<le> y \<and> y \<le> below_1e21" by simp
  with Fin show ?thesis by simp
qed

lemma below_1e21_lt: "below_1e21 < 10 ^ 21"
  by (simp add: below_1e21_def)

lemma toFixed_1_text:
  assumes y: "0 \<le> y" "y \<le> below_1e21"
  shows "fixed_notation 1 (toFixed 1 (Fin y)) \<and> reads_below_1e21 (toFixed 1 (Fin y)) \<and>
         \<bar>fixed_value 1 (toFixed 1 (Fin y)) - y\<bar> \<le> 1 / 20"
proof -
  define n where "n = nearest_scaled 1 y"
  have ylt: "y < 10 ^ 21" using y(2) below_1e21_lt by linarith
  have tf: "toFixed 1 (Fin y) = fixed_1 n" using toFixed_1 [OF y(1) ylt] by (simp only: n_def)
  have close: "\<bar>of_nat n / 10 - y\<bar> \<le> 1 / 20"
    using nearest_scaled_close [OF y(1), of 1] by (simp add: n_def)
  then have "of_nat n / 10 < below_1e21 + 65536" using y(2) by linarith
  then have "of_nat n / 10 < below_1e21 + 2 powi (69 - 52) / 2" by (simp only: below_1e21_half)
  moreover have "(0::rat) \<le> of_nat n / 10" by simp
  ultimately obtain v where v: "round_dbl (of_nat n / 10) = Fin v" "v \<le> below_1e21"
    using round_dbl_nonneg_le_mid [OF _ below_1e21_repr, of "of_nat n / 10"] by auto
  then have rb: "reads_below_1e21 (fixed_1 n)"
    using below_1e21_lt by (simp add: reads_below_1e21_def parseFloat_fixed_1)
  have fn: "fixed_notation 1 (fixed_1 n)" by (rule fixed_notation_1)
  have fv: "\<bar>fixed_value 1 (fixed_1 n) - y\<bar> \<le> 1 / 20" using close by (simp only: fixed_value_1)
  from fn rb fv show ?thesis unfolding tf by blast
qed

lemma update_metric_text:
  "textContent (update_metric r el)
     = toFixed 1 (js_max (Fin 0) (js_add (parseFloat (textContent el)) (fluctuation r)))"
  by (simp add: update_metric_def Let_def)

lemma updateResourceMetrics_nth:
  "i < length els \<Longrightarrow> updateResourceMetrics rnd els ! i = update_metric (rnd i) (els ! i)"
  by (simp add: updateResourceMetrics_def nth_enumerate_eq)

lemma updateResourceMetrics_length [simp]:
  "length (updateResourceMetrics rnd els) = length els"
  by (simp add: updateResourceMetrics_def)

lemma js_max_zero_nonneg: "js_max (Fin 0) x = Fin y \<Longrightarrow> 0 \<le> y"
  by (cases x) auto

lemma toFixed_1_format:
  assumes y: "0 \<le> y" "y < 10 ^ 21"
  shows "fixed_notation 1 (toFixed 1 (Fin y)) \<and> \<bar>fixed_value 1 (toFixed 1 (Fin y)) - y\<bar> \<le> 1 / 20"
proof -
  define n where "n = nearest_scaled 1 y"
  have tf: "toFixed 1 (Fin y) = fixed_1 n" using toFixed_1 [OF y] by (simp only: n_def)
  have close: "\<bar>of_nat n / 10 - y\<bar> \<le> 1 / 20"
    using nearest_scaled_close [OF y(1), of 1] by (simp add: n_def)
  have fn: "fixed_notation 1 (fixed_1 n)" by (rule fixed_notation_1)
  have fv: "\<bar>fixed_value 1 (fixed_1 n) - y\<bar> \<le> 1 / 20" using close by (simp only: fixed_value_1)
  from fn fv show ?thesis unfolding tf by blast
qed

lemma toFixed_1_zero: "toFixed 1 (Fin 0) = ''0.0''"
proof -
  have "toFixed 1 (Fin 0) = fixed_1 (nearest_scaled 1 0)" by (rule toFixed_1) simp_all
  also have "\<dots> = ''0.0''" by (simp add: writing)
  finally show ?thesis .
qed

lemma fluctuation_three_quarters: "fluctuation (Fin (3 / 4)) = Fin (5 / 2)"
proof -
  have "round_dbl (1 / 4) = Fin (1 / 4)"
    using overflow_bound_large by (intro round_dbl_exact [of 1 "- 2"]) simp_all
  then show ?thesis by (simp add: fluctuation_def js_sub_def round_dbl_half)
qed

lemma update_keeps_invariant:
  assumes inv: "\<forall>el\<in>set els. reads_below_1e21 (textContent el)"
    and rnd: "\<forall>i. random_value (rnd i)"
  shows "\<forall>el\<in>set (updateResourceMetrics rnd els).
           fixed_notation 1 (textContent el) \<and> reads_below_1e21 (textContent el)"
proof
  fix el
  assume "el \<in> set (updateResourceMetrics rnd els)"
  then obtain i where i: "i < length els" and el: "el = updateResourceMetrics rnd els ! i"
    by (auto simp: in_set_conv_nth)
  from inv i have r: "reads_below_1e21 (textContent (els ! i))" by simp
  from fluctuation_bounds rnd obtain d where
    d: "fluctuation (rnd i) = Fin d" and db: "- 5 \<le> d" "d \<le> 5" by blast
  from tick_value_bounded [OF r db] obtain y where
    y: "js_max (Fin 0) (js_add (parseFloat (textContent (els ! i))) (Fin d)) = Fin y"
    and yb: "0 \<le> y" "y \<le> below_1e21" by blast
  have "textContent el = toFixed 1 (Fin y)"
    using i by (simp add: el updateResourceMetrics_nth update_metric_text d y)
  with toFixed_1_text [OF yb]
  show "fixed_notation 1 (textContent el) \<and> reads_below_1e21 (textContent el)" by simp
qed

lemma ticks_keep_invariant:
  assumes "\<forall>el\<in>set els. reads_below_1e21 (textContent el)"
    and "\<forall>rnd\<in>set rnds. \<forall>i. random_value (rnd i)"
  shows "\<forall>el\<in>set (ticks els rnds). reads_below_1e21 (textContent el)"
  using assms
proof (induction rnds arbitrary: els)
  case Nil
  then show ?case by (simp add: ticks_def)
next
  case (Cons rnd rnds)
  from Cons.prems have "\<forall>el\<in>set (updateResourceMetrics rnd els). reads_below_1e21 (textContent el)"
    using update_keeps_invariant [of els rnd] by simp
  moreover from Cons.prems have "\<forall>rnd\<in>set rnds. \<forall>i. random_value (rnd i)" by simp
  ultimately have "\<forall>el\<in>set (ticks (updateResourceMetrics rnd els) rnds). reads_below_1e21 (textContent el)"
    by (rule Cons.IH)
  then show ?case by (simp add: ticks_def)
qed

lemma ticks_length [simp]: "length (ticks els rnds) = length els"
  by (induction rnds arbitrary: els) (simp_all add: ticks_def)

section \<open>The metric texts\<close>

text \<open>
  C4. The claim that the new text is always the value with one decimal place fails on
  the code: \<open>toFixed\<close> leaves positional notation at \<open>10^21\<close>. A metric text that
  reads as \<open>10^21\<close>, with the random number 0.5 and so the fluctuation 0, becomes
  \<open>1e+21\<close>.
\<close>

theorem metric_update_1e21:
  "parseFloat rate_1e21 = Fin (10 ^ 21) \<and> random_value (one_half 0) \<and>
   fluctuation (one_half 0) = Fin 0 \<and>
   map textContent (updateResourceMetrics one_half [gauge rate_1e21]) = [''1e+21''] \<and>
   \<not> fixed_notation 1 ''1e+21''"
proof (intro conjI)
  show p: "parseFloat rate_1e21 = Fin (10 ^ 21)" by (rule parseFloat_rate_1e21)
  show "random_value (one_half 0)" by (simp add: random_value_def one_half_def)
  show f: "fluctuation (one_half 0) = Fin 0"
    by (simp add: fluctuation_def js_sub_def one_half_def)
  have "js_max (Fin 0) (js_add (Fin (10 ^ 21)) (Fin 0)) = Fin (10 ^ 21)"
    by (simp add: round_dbl_1e21_numeral)
  then have "textContent (update_metric (one_half 0) (gauge rate_1e21)) = ''1e+21''"
    by (simp only: update_metric_text f toFixed_1e21 gauge_def metric.simps p)
  then show "map textContent (updateResourceMetrics one_half [gauge rate_1e21]) = [''1e+21'']"
    by (simp add: updateResourceMetrics_def)
  show "\<not> fixed_notation 1 ''1e+21''"
    by (simp add: fixed_notation_def is_digit_def)
qed

text \<open>
  C4, amended. On a tick, for a metric element whose text \<open>parseFloat\<close> reads as a
  finite number \<open>v\<close> below \<open>10^21\<close>, and a random number in \<open>[0, 1)\<close>: the fluctuation
  \<open>d\<close> is a number between -5 and 5, \<open>Math.max(0, v + d)\<close> is a number \<open>y\<close> from 0 to
  below \<open>10^21\<close>, and the new text is \<open>y\<close> with one decimal place: digits, a point and
  one digit, within 0.05 of \<open>y\<close>. When \<open>v\<close> is 0 and \<open>d\<close> is negative, the text is
  \<open>0.0\<close>.
\<close>

theorem metric_update:
  assumes "i < length els" and "parseFloat (textContent (els ! i)) = Fin v"
    and "v < 10 ^ 21" and "random_value (rnd i)"
  shows "\<exists>d y. fluctuation (rnd i) = Fin d \<and> - 5 \<le> d \<and> d \<le> 5 \<and>
           js_max (Fin 0) (js_add (Fin v) (Fin d)) = Fin y \<and> 0 \<le> y \<and> y < 10 ^ 21 \<and>
           textContent (updateResourceMetrics rnd els ! i) = toFixed 1 (Fin y) \<and>
           fixed_notation 1 (textContent (updateResourceMetrics rnd els ! i)) \<and>
           \<bar>fixed_value 1 (textContent (updateResourceMetrics rnd els ! i)) - y\<bar> \<le> 1 / 20 \<and>
           (v = 0 \<and> d < 0 \<longrightarrow> textContent (updateResourceMetrics rnd els ! i) = ''0.0'')"
proof -
  from fluctuation_bounds [OF assms(4)] obtain d where
    d: "fluctuation (rnd i) = Fin d" and db: "- 5 \<le> d" "d \<le> 5" by blast
  let ?t = "textContent (updateResourceMetrics rnd els ! i)"
  have r: "reads_below_1e21 (textContent (els ! i))"
    using assms(2,3) by (simp add: reads_below_1e21_def)
  from tick_value_bounded [OF r db] assms(2) obtain y where
    y: "js_max (Fin 0) (js_add (Fin v) (Fin d)) = Fin y" and yb: "0 \<le> y" "y \<le> below_1e21"
    by auto
  have ylt: "y < 10 ^ 21" using yb(2) below_1e21_lt by linarith
  have t: "?t = toFixed 1 (Fin y)"
    using assms(1,2) d y by (simp add: updateResourceMetrics_nth update_metric_text)
  from toFixed_1_format [OF yb(1) ylt]
  have fmt: "fixed_notation 1 ?t" "\<bar>fixed_value 1 ?t - y\<bar> \<le> 1 / 20"
    by (simp_all only: t)
  have zero: "?t = ''0.0''" if "v = 0 \<and> d < 0"
  proof -
    from that have "js_max (Fin 0) (js_add (Fin v) (Fin d)) = Fin 0"
      using js_max_zero_neg [of d] by simp
    with y have "y = 0" by simp
    then show ?thesis by (simp only: t toFixed_1_zero)
  qed
  from d db y yb(1) ylt t fmt zero show ?thesis by blast
qed

theorem metric_update_witness:
  "textContent (updateResourceMetrics three_quarters [gauge ''12.5''] ! 0) = ''15.0''"
proof -
  have a: "0 < length [gauge ''12.5'']" by simp
  have b: "parseFloat (textContent ([gauge ''12.5''] ! 0)) = Fin (25 / 2)"
    by (simp add: gauge_def reading)
  have b': "(25 / 2 :: rat) < 10 ^ 21" by simp
  have c: "random_value (three_quarters 0)" by (simp add: random_value_def three_quarters_def)
  from metric_update [of 0 "[gauge ''12.5'']" "25 / 2" three_quarters, OF a b b' c] obtain d y where
    d: "fluctuation (three_quarters 0) = Fin d" and
    y: "js_max (Fin 0) (js_add (Fin (25 / 2)) (Fin d)) = Fin y" and
    t: "textContent (updateResourceMetrics three_quarters [gauge ''12.5''] ! 0) = toFixed 1 (Fin y)"
    by blast
  from d have d': "d = 5 / 2" by (simp add: three_quarters_def fluctuation_three_quarters)
  have "js_max (Fin 0) (js_add (Fin (25 / 2)) (Fin (5 / 2))) = Fin 15"
    by (simp add: round_dbl_numeral)
  with y have y': "y = 15" by (simp only: d') simp
  have "toFixed 1 (Fin 15) = ''15.0''"
  proof -
    have "toFixed 1 (Fin 15) = fixed_1 (nearest_scaled 1 15)" by (rule toFixed_1) simp_all
    also have "\<dots> = ''15.0''" by (simp add: writing)
    finally show ?thesis .
  qed
  then show ?thesis by (simp only: t y')
qed

text \<open>
  C7. The claim that the text is a decimal with one fraction digit after every tick,
  from any initial text, fails on the code: a text that \<open>parseFloat\<close> cannot read
  becomes \<open>NaN\<close> at the first tick, and \<open>NaN\<close> is not in fixed notation.
\<close>

theorem unreadable_metric_becomes_NaN:
  "map textContent (ticks [gauge ''n/a''] [no_random]) = [''NaN''] \<and> \<not> fixed_notation 1 ''NaN''"
proof
  have "parseFloat ''n/a'' = NaN" by (simp add: reading)
  then show "map textContent (ticks [gauge ''n/a''] [no_random]) = [''NaN'']"
    by (simp add: ticks_def updateResourceMetrics_def update_metric_def gauge_def toFixed_def)
  show "\<not> fixed_notation 1 ''NaN''" by (simp add: fixed_notation_def is_digit_def)
qed

text \<open>
  C7, amended. When every metric text reads as a number below \<open>10^21\<close> at the start,
  then after every nonempty sequence of ticks, whatever random numbers in \<open>[0, 1)\<close>
  are drawn, the text of every metric element is digits, a point and one digit.
\<close>

theorem metric_text_invariant:
  assumes "\<forall>el\<in>set els. reads_below_1e21 (textContent el)"
    and "\<forall>rnd\<in>set rnds. \<forall>i. random_value (rnd i)"
    and "rnds \<noteq> []"
  shows "\<forall>el\<in>set (ticks els rnds). fixed_notation 1 (textContent el)"
proof -
  from assms(3) obtain before rnd where rnds: "rnds = before @ [rnd]"
    by (cases rnds rule: rev_cases) auto
  have "\<forall>el\<in>set (ticks els before). reads_below_1e21 (textContent el)"
    using assms(1,2) by (intro ticks_keep_invariant) (simp_all add: rnds)
  moreover have "\<forall>i. random_value (rnd i)" using assms(2) by (simp add: rnds)
  ultimately have "\<forall>el\<in>set (updateResourceMetrics rnd (ticks els before)).
      fixed_notation 1 (textContent el) \<and> reads_below_1e21 (textContent el)"
    by (rule update_keeps_invariant)
  moreover have "ticks els rnds = updateResourceMetrics rnd (ticks els before)"
    by (simp add: ticks_def rnds)
  ultimately show ?thesis by simp
qed

theorem metric_text_invariant_witness:
  "fixed_notation 1
     (textContent (ticks [gauge ''12.5'', gauge ''-Infinity''] [three_quarters, no_random] ! 0)) \<and>
   fixed_notation 1
     (textContent (ticks [gauge ''12.5'', gauge ''-Infinity''] [three_quarters, no_random] ! 1))"
proof -
  let ?els = "[gauge ''12.5'', gauge ''-Infinity'']"
  let ?rnds = "[three_quarters, no_random]"
  have a: "\<forall>el\<in>set ?els. reads_below_1e21 (textContent el)"
    by (simp add: gauge_def reads_below_1e21_def reading)
  have b: "\<forall>rnd\<in>set ?rnds. \<forall>i. random_value (rnd i)"
    by (simp add: random_value_def three_quarters_def no_random_def)
  have c: "?rnds \<noteq> []" by simp
  have "ticks ?els ?rnds ! 0 \<in> set (ticks ?els ?rnds)"
    and "ticks ?els ?rnds ! 1 \<in> set (ticks ?els ?rnds)"
    by (rule nth_mem, simp)+
  with metric_text_invariant [OF a b c] show ?thesis by blast
qed

end
